theory Spec2Isabelle
  imports Complex_Main "HOL-Library.Log_Nat"
begin

section \<open>Strings and file names (resizer.ts, main.ts)\<close>

text \<open>
  File names and paths are \<open>string\<close>s. Only the ASCII letters are case-mapped by
  \<open>toLowerCase\<close>; no character outside ASCII lower-cases to a letter of the five
  supported extensions, so the extension test is not affected.
\<close>

type_synonym bytes = "nat list"

definition toLowerCase :: "string \<Rightarrow> string" where
  "toLowerCase s =
     map (\<lambda>c. if 65 \<le> (of_char c :: nat) \<and> (of_char c :: nat) \<le> 90
              then char_of ((of_char c :: nat) + 32) else c) s"

text \<open>\<open>s.split(sep)\<close> for a one-character separator: never the empty array.\<close>

fun split :: "char \<Rightarrow> string \<Rightarrow> string list" where
  "split sep [] = [[]]"
| "split sep (c # cs) =
     (if c = sep then [] # split sep cs
      else (case split sep cs of
              [] \<Rightarrow> [[c]]
            | seg # segs \<Rightarrow> (c # seg) # segs))"

text \<open>\<open>Array.prototype.pop\<close>, read for its result: the last element, or undefined.\<close>

definition pop :: "'a list \<Rightarrow> 'a option" where
  "pop xs = (if xs = [] then None else Some (last xs))"

definition IMAGE_EXTENSIONS :: "string set" where
  "IMAGE_EXTENSIONS = {''png'', ''jpg'', ''jpeg'', ''webp'', ''bmp''}"

definition isImageFile :: "string \<Rightarrow> bool" where
  "isImageFile filename =
     (let ext = (case pop (split CHR ''.'' filename) of
                   None \<Rightarrow> ''''
                 | Some e \<Rightarrow> toLowerCase e)
      in ext \<in> IMAGE_EXTENSIONS)"

definition getExtension :: "string \<Rightarrow> string" where
  "getExtension filename =
     (case pop (split CHR ''.'' filename) of
        None \<Rightarrow> ''''
      | Some e \<Rightarrow> toLowerCase e)"

definition getMimeType :: "string \<Rightarrow> string" where
  "getMimeType ext =
     (if ext = ''png'' then ''image/png''
      else if ext = ''jpg'' \<or> ext = ''jpeg'' then ''image/jpeg''
      else if ext = ''webp'' then ''image/webp''
      else if ext = ''bmp'' then ''image/bmp''
      else ''image/png'')"

text \<open>
  \<open>String.prototype.replace\<close>. The replacement text goes through the \<open>$\<close> patterns of
  the language: \<open>$$\<close>, \<open>$&\<close> (the match), \<open>$`\<close> (the text before it) and \<open>$'\<close> (the
  text after it). Neither pattern used by main.ts has a capture group, so every other
  \<open>$\<close> stands for itself.
\<close>

fun getSubstitution :: "string \<Rightarrow> string \<Rightarrow> string \<Rightarrow> string \<Rightarrow> string" where
  "getSubstitution matched before after [] = []"
| "getSubstitution matched before after [c] = [c]"
| "getSubstitution matched before after (c # d # r) =
     (if c = CHR ''$'' then
        (if d = CHR ''$'' then CHR ''$'' # getSubstitution matched before after r
         else if d = CHR ''&'' then matched @ getSubstitution matched before after r
         else if d = CHR 0x60 then before @ getSubstitution matched before after r
         else if d = CHR 0x27 then after @ getSubstitution matched before after r
         else c # getSubstitution matched before after (d # r))
      else c # getSubstitution matched before after (d # r))"

text \<open>The first occurrence of a search string: the text before it and the text after it.\<close>

fun indexOfFirst :: "string \<Rightarrow> string \<Rightarrow> (string \<times> string) option" where
  "indexOfFirst pat [] = (if pat = [] then Some ([], []) else None)"
| "indexOfFirst pat (c # cs) =
     (if take (length pat) (c # cs) = pat then Some ([], drop (length pat) (c # cs))
      else map_option (\<lambda>(b, a). (c # b, a)) (indexOfFirst pat cs))"

definition replaceString :: "string \<Rightarrow> string \<Rightarrow> string \<Rightarrow> string" where
  "replaceString s pat replacement =
     (case indexOfFirst pat s of
        None \<Rightarrow> s
      | Some (before, after) \<Rightarrow> before @ getSubstitution pat before after replacement @ after)"

text \<open>
  The regular expression \<open>/\.[^.]+$/\<close>: the last dot of the string with the non-empty,
  dot-free text that follows it up to the end. The result is the text before the match
  and the match.
\<close>

definition matchExtension :: "string \<Rightarrow> (string \<times> string) option" where
  "matchExtension s =
     (let r = rev s;
          tail = takeWhile (\<lambda>c. c \<noteq> CHR ''.'') r;
          rest = dropWhile (\<lambda>c. c \<noteq> CHR ''.'') r
      in if rest = [] \<or> tail = [] then None
         else Some (rev (tl rest), CHR ''.'' # rev tail))"

definition replaceExtension :: "string \<Rightarrow> string \<Rightarrow> string" where
  "replaceExtension s replacement =
     (case matchExtension s of
        None \<Rightarrow> s
      | Some (before, matched) \<Rightarrow> before @ getSubstitution matched before [] replacement)"

section \<open>Dimension planner (resizer.ts, calculateDimensions)\<close>

text \<open>
  A JavaScript number is an IEEE-754 double. The values a double can take are
  rationals, and every division and multiplication of the source returns the exact
  result rounded to the nearest double, a tie going to the even significand.
  \<open>roundToDouble\<close> is that rounding, for a significand of 53 bits; the exponent is not
  bounded, which leaves out overflow and subnormal results: neither occurs for
  magnitudes between \<open>2^-1022\<close> and \<open>2^1024\<close>, a range no quotient or product of
  integers below \<open>2^53\<close> leaves. Comparisons and \<open>Math.min\<close> are exact.
\<close>

definition roundHalfEven :: "rat \<Rightarrow> int" where
  "roundHalfEven y =
     (let f = \<lfloor>y\<rfloor>;
          r = y - of_int f
      in if r < 1 / 2 then f
         else if 1 / 2 < r then f + 1
         else if even f then f else f + 1)"

text \<open>For a positive \<open>x\<close>, the exponent \<open>e\<close> with \<open>2^e \<le> x < 2^(e+1)\<close>.\<close>

definition binaryExponent :: "rat \<Rightarrow> int" where
  "binaryExponent x =
     (let (p, q) = quotient_of x;
          d = bitlen p - bitlen q
      in if 2 powi d \<le> x then d else d - 1)"

definition roundToDouble :: "rat \<Rightarrow> rat" where
  "roundToDouble x =
     (if x = 0 then 0
      else
        let a = \<bar>x\<bar>;
            ulp = 2 powi (binaryExponent a - 52)
        in sgn x * of_int (roundHalfEven (a / ulp)) * ulp)"

text \<open>
  \<open>Math.round\<close> returns the integer nearest to its argument, a half going towards plus
  infinity; it is exact on the double it is given.
\<close>

definition Math_round :: "rat \<Rightarrow> int" where
  "Math_round x = \<lfloor>x + 1 / 2\<rfloor>"

text \<open>The local variable \<open>scale\<close> of calculateDimensions after its two updates.\<close>

definition computeScale :: "rat \<Rightarrow> rat \<Rightarrow> rat \<Rightarrow> rat \<Rightarrow> rat" where
  "computeScale origWidth origHeight maxWidth maxHeight =
     (let scale = 1;
          scale = (if maxWidth > 0 \<and> origWidth > maxWidth
                   then min scale (roundToDouble (maxWidth / origWidth)) else scale);
          scale = (if maxHeight > 0 \<and> origHeight > maxHeight
                   then min scale (roundToDouble (maxHeight / origHeight)) else scale)
      in scale)"

definition calculateDimensions :: "rat \<Rightarrow> rat \<Rightarrow> rat \<Rightarrow> rat \<Rightarrow> (int \<times> int) option" where
  "calculateDimensions origWidth origHeight maxWidth maxHeight =
     (let scale = computeScale origWidth origHeight maxWidth maxHeight
      in if scale \<ge> 1 then None
         else Some (Math_round (roundToDouble (origWidth * scale)),
                    Math_round (roundToDouble (origHeight * scale))))"

text \<open>
  The specification's wording of the scale: the shrink factor one axis requires on its
  own, to be compared with \<open>computeScale\<close>.
\<close>

definition axisShrink :: "rat \<Rightarrow> rat \<Rightarrow> rat" where
  "axisShrink orig limit = (if limit > 0 \<and> orig > limit then limit / orig else 1)"

text \<open>The largest relative error of one rounding to a double.\<close>

definition unitRoundoff :: rat where
  "unitRoundoff = 1 / 2 ^ 53"

text \<open>
  The specification's inference of the MIME type from the extension (section 4.2),
  as a table, to be compared with the format the engine encodes.
\<close>

definition specMimeOfExtension :: "string \<Rightarrow> string" where
  "specMimeOfExtension ext =
     (case map_of [(''png'', ''image/png''), (''jpg'', ''image/jpeg''),
                   (''jpeg'', ''image/jpeg''), (''webp'', ''image/webp''),
                   (''bmp'', ''image/bmp'')] ext of
        Some mime \<Rightarrow> mime
      | None \<Rightarrow> ''image/png'')"

section \<open>Resize engine (resizer.ts, resizeImage)\<close>

record ImageResizerSettings =
  maxWidth :: int
  maxHeight :: int
  jpegQuality :: int
  convertToJpeg :: bool
  resizeOnPaste :: bool
  resizeOnDrop :: bool
  showNotice :: bool
  skipExtensions :: "string list"

definition DEFAULT_SETTINGS :: ImageResizerSettings where
  "DEFAULT_SETTINGS =
     \<lparr>maxWidth = 1920, maxHeight = 1080, jpegQuality = 85, convertToJpeg = False,
      resizeOnPaste = True, resizeOnDrop = True, showNotice = True, skipExtensions = []\<rparr>"

record HTMLImageElement =
  naturalWidth :: nat
  naturalHeight :: nat

datatype error = LoadFailed | NoContext2d | ToBlobNull | StorageError

text \<open>
  What the program asks of the browser and of the vault, as parameters: the decoder
  behind \<open>Image.onload\<close>/\<open>onerror\<close>, whether a canvas of a given size hands out a 2D
  context, the encoder behind \<open>canvas.toBlob\<close> (source bytes and type, canvas size,
  output type, quality), and which storage calls fail for reasons of the host's own.
\<close>

record Host =
  decodeImage :: "bytes \<Rightarrow> string \<Rightarrow> HTMLImageElement option"
  canvasContext :: "int \<Rightarrow> int \<Rightarrow> bool"
  toBlob :: "bytes \<Rightarrow> string \<Rightarrow> int \<Rightarrow> int \<Rightarrow> string \<Rightarrow> rat option \<Rightarrow> bytes option"
  readFails :: "string \<Rightarrow> bool"
  modifyFails :: "string \<Rightarrow> bool"
  renameFails :: "string \<Rightarrow> string \<Rightarrow> bool"

definition loadImage :: "Host \<Rightarrow> bytes \<Rightarrow> string \<Rightarrow> error + HTMLImageElement" where
  "loadImage host dat mimeType =
     (case decodeImage host dat mimeType of
        None \<Rightarrow> Inl LoadFailed
      | Some img \<Rightarrow> Inr img)"

record ResizeResult =
  data :: bytes
  width :: int
  height :: int
  originalWidth :: nat
  originalHeight :: nat
  newExtension :: "string option"

definition resizeImage ::
  "Host \<Rightarrow> bytes \<Rightarrow> string \<Rightarrow> ImageResizerSettings \<Rightarrow> error + ResizeResult option" where
  "resizeImage host dat filename settings =
     (let ext = getExtension filename;
          mimeType = getMimeType ext
      in case loadImage host dat mimeType of
           Inl e \<Rightarrow> Inl e
         | Inr img \<Rightarrow>
             (case calculateDimensions (of_nat (naturalWidth img)) (of_nat (naturalHeight img))
                     (of_int (maxWidth settings)) (of_int (maxHeight settings)) of
                None \<Rightarrow> Inr None
              | Some (w, h) \<Rightarrow>
                  if \<not> canvasContext host w h then Inl NoContext2d
                  else
                    let convert = (convertToJpeg settings \<and> ext = ''png'');
                        outputMime = (if convert then ''image/jpeg'' else mimeType);
                        newExt = (if convert then Some ''jpg'' else None);
                        quality = (if outputMime = ''image/png'' then None
                                   else Some (roundToDouble (of_int (jpegQuality settings) / 100)))
                    in case toBlob host dat mimeType w h outputMime quality of
                         None \<Rightarrow> Inl ToBlobNull
                       | Some resizedBuffer \<Rightarrow>
                           Inr (Some \<lparr>data = resizedBuffer, width = w, height = h,
                                      originalWidth = naturalWidth img,
                                      originalHeight = naturalHeight img,
                                      newExtension = newExt\<rparr>)))"

section \<open>Plugin state (main.ts)\<close>

text \<open>
  A \<open>TFile\<close> is read for its \<open>path\<close> and its \<open>name\<close> and is modelled by value. The
  vault maps a path to what is stored there. Timers are the host's table of armed
  \<open>setTimeout\<close> handles, each with the closure it will run; handles are positive and
  never reused. \<open>calls\<close> records, in order, every call made to the vault and to the
  resize engine, and \<open>notices\<close> every \<open>Notice\<close> shown.
\<close>

record TFile =
  path :: string
  name :: string

datatype TAbstractFile = IsFile TFile | IsFolder string

datatype entry = File bytes | Folder

datatype timer_action = Debounce TFile | ReleaseSingle TFile | ReleaseBatch TFile

datatype host_call =
    ReadBinary string
  | ResizeImage string
  | ModifyBinary string
  | RenameFile string string

datatype notice =
    NoImagesFound string
  | Scanning nat string
  | BatchSummary nat nat "nat option"
  | ImageResized nat nat int int int int
  | ProcessFailed string

record ImageResizerPlugin =
  settings :: ImageResizerSettings
  processing :: "string set"
  pending :: "string \<rightharpoonup> nat"
  ready :: bool
  vault :: "string \<rightharpoonup> entry"
  timers :: "(nat \<times> timer_action) list"
  nextTimer :: nat
  calls :: "host_call list"
  notices :: "notice list"

definition setTimeout :: "ImageResizerPlugin \<Rightarrow> timer_action \<Rightarrow> nat \<times> ImageResizerPlugin" where
  "setTimeout s action =
     (nextTimer s,
      s\<lparr>timers := timers s @ [(nextTimer s, action)], nextTimer := Suc (nextTimer s)\<rparr>)"

definition clearTimeout :: "ImageResizerPlugin \<Rightarrow> nat \<Rightarrow> ImageResizerPlugin" where
  "clearTimeout s timer = s\<lparr>timers := filter (\<lambda>(t, a). t \<noteq> timer) (timers s)\<rparr>"

definition Notice :: "ImageResizerPlugin \<Rightarrow> notice \<Rightarrow> ImageResizerPlugin" where
  "Notice s n = s\<lparr>notices := notices s @ [n]\<rparr>"

definition called :: "ImageResizerPlugin \<Rightarrow> host_call \<Rightarrow> ImageResizerPlugin" where
  "called s c = s\<lparr>calls := calls s @ [c]\<rparr>"

subsection \<open>Vault operations\<close>

definition readBinary :: "Host \<Rightarrow> ImageResizerPlugin \<Rightarrow> TFile \<Rightarrow> error + bytes" where
  "readBinary host s file =
     (if readFails host (path file) then Inl StorageError
      else (case vault s (path file) of
              Some (File d) \<Rightarrow> Inr d
            | _ \<Rightarrow> Inl StorageError))"

definition modifyBinary ::
  "Host \<Rightarrow> ImageResizerPlugin \<Rightarrow> TFile \<Rightarrow> bytes \<Rightarrow> error + ImageResizerPlugin" where
  "modifyBinary host s file d =
     (if modifyFails host (path file) then Inl StorageError
      else (case vault s (path file) of
              Some (File old) \<Rightarrow> Inr (s\<lparr>vault := (vault s)(path file \<mapsto> File d)\<rparr>)
            | _ \<Rightarrow> Inl StorageError))"

definition getAbstractFileByPath :: "ImageResizerPlugin \<Rightarrow> string \<Rightarrow> entry option" where
  "getAbstractFileByPath s p = vault s p"

definition renameFile ::
  "Host \<Rightarrow> ImageResizerPlugin \<Rightarrow> TFile \<Rightarrow> string \<Rightarrow> error + ImageResizerPlugin" where
  "renameFile host s file newPath =
     (if renameFails host (path file) newPath then Inl StorageError
      else (case vault s (path file) of
              None \<Rightarrow> Inl StorageError
            | Some e \<Rightarrow>
                if vault s newPath \<noteq> None then Inl StorageError
                else Inr (s\<lparr>vault := (vault s)(path file := None, newPath \<mapsto> e)\<rparr>)))"

subsection \<open>Debounce scheduler (scheduleResize)\<close>

definition scheduleResize :: "ImageResizerPlugin \<Rightarrow> TFile \<Rightarrow> ImageResizerPlugin" where
  "scheduleResize s file =
     (if \<not> ready s then s
      else if \<not> isImageFile (name file) then s
      else if path file \<in> processing s then s
      else
        let s1 = (case pending s (path file) of
                    None \<Rightarrow> s
                  | Some existing \<Rightarrow> if existing \<noteq> 0 then clearTimeout s existing else s);
            (timer, s2) = setTimeout s1 (Debounce file)
        in s2\<lparr>pending := (pending s2)(path file \<mapsto> timer)\<rparr>)"

definition onVaultEvent :: "ImageResizerPlugin \<Rightarrow> TAbstractFile \<Rightarrow> ImageResizerPlugin" where
  "onVaultEvent s af = (case af of IsFile file \<Rightarrow> scheduleResize s file | IsFolder p \<Rightarrow> s)"

definition onLayoutReady :: "ImageResizerPlugin \<Rightarrow> ImageResizerPlugin" where
  "onLayoutReady s = s\<lparr>ready := True\<rparr>"

subsection \<open>Single-file path (processFile)\<close>

text \<open>
  The write-back of lines 288 to 307: the statements between the engine's result and
  the notice. An exception leaves the state as it was when it was thrown.
\<close>

definition writeBackSingle ::
  "Host \<Rightarrow> ImageResizerPlugin \<Rightarrow> TFile \<Rightarrow> ResizeResult \<Rightarrow> error option \<times> ImageResizerPlugin" where
  "writeBackSingle host s file result =
     (case newExtension result of
        Some ext \<Rightarrow>
          if ext = [] then
            (let s1 = called s (ModifyBinary (path file))
             in case modifyBinary host s1 file (data result) of
                  Inl e \<Rightarrow> (Some e, s1)
                | Inr s2 \<Rightarrow> (None, s2))
          else
            (let newName = replaceExtension (name file) (CHR ''.'' # ext);
                 newPath = replaceString (path file) (name file) newName;
                 s1 = called s (ModifyBinary (path file))
             in case modifyBinary host s1 file (data result) of
                  Inl e \<Rightarrow> (Some e, s1)
                | Inr s2 \<Rightarrow>
                    (case getAbstractFileByPath s2 newPath of
                       Some existingFile \<Rightarrow> (None, s2)
                     | None \<Rightarrow>
                         let s3 = s2\<lparr>processing := insert newPath (processing s2)\<rparr>;
                             s4 = called s3 (RenameFile (path file) newPath)
                         in (case renameFile host s4 file newPath of
                               Inl e \<Rightarrow> (Some e, s4)
                             | Inr s5 \<Rightarrow> (None, s5))))
      | None \<Rightarrow>
          (let s1 = called s (ModifyBinary (path file))
           in case modifyBinary host s1 file (data result) of
                Inl e \<Rightarrow> (Some e, s1)
              | Inr s2 \<Rightarrow> (None, s2)))"

text \<open>The size shown in a notice; a division by 1024 is exact in doubles.\<close>

definition kilobytes :: "bytes \<Rightarrow> int" where
  "kilobytes d = Math_round (of_nat (length d) / 1024)"

text \<open>The \<open>try\<close> block of processFile; the result tells whether it threw.\<close>

definition processFileTry ::
  "Host \<Rightarrow> ImageResizerPlugin \<Rightarrow> TFile \<Rightarrow> error option \<times> ImageResizerPlugin" where
  "processFileTry host s file =
     (let s1 = called s (ReadBinary (path file))
      in case readBinary host s1 file of
           Inl e \<Rightarrow> (Some e, s1)
         | Inr dat \<Rightarrow>
             (let s2 = called s1 (ResizeImage (path file))
              in case resizeImage host dat (name file) (settings s2) of
                   Inl e \<Rightarrow> (Some e, s2)
                 | Inr None \<Rightarrow> (None, s2)
                 | Inr (Some result) \<Rightarrow>
                     (case writeBackSingle host s2 file result of
                        (Some e, s3) \<Rightarrow> (Some e, s3)
                      | (None, s3) \<Rightarrow>
                          (None,
                           if showNotice (settings s3)
                           then Notice s3 (ImageResized (originalWidth result)
                                  (originalHeight result) (width result) (height result)
                                  (kilobytes dat) (kilobytes (data result)))
                           else s3))))"

definition processFile :: "Host \<Rightarrow> ImageResizerPlugin \<Rightarrow> TFile \<Rightarrow> ImageResizerPlugin" where
  "processFile host s file =
     (if path file \<in> processing s then s
      else if \<not> isImageFile (name file) then s
      else if \<not> resizeOnPaste (settings s) \<and> \<not> resizeOnDrop (settings s) then s
      else
        let s1 = s\<lparr>processing := insert (path file) (processing s)\<rparr>;
            s2 = (case processFileTry host s1 file of
                    (Some err, s') \<Rightarrow>
                      if showNotice (settings s') then Notice s' (ProcessFailed (name file))
                      else s'
                  | (None, s') \<Rightarrow> s')
        in snd (setTimeout s2 (ReleaseSingle file)))"

subsection \<open>Timers firing\<close>

definition fireTimer :: "Host \<Rightarrow> ImageResizerPlugin \<Rightarrow> nat \<Rightarrow> ImageResizerPlugin" where
  "fireTimer host s timer =
     (case map_of (timers s) timer of
        None \<Rightarrow> s
      | Some action \<Rightarrow>
          let s1 = clearTimeout s timer
          in (case action of
                Debounce file \<Rightarrow>
                  processFile host (s1\<lparr>pending := (pending s1)(path file := None)\<rparr>) file
              | ReleaseSingle file \<Rightarrow>
                  let s2 = s1\<lparr>processing := processing s1 - {path file}\<rparr>;
                      ext = getExtension (name file)
                  in if convertToJpeg (settings s2) \<and> ext = ''png''
                     then s2\<lparr>processing :=
                            processing s2 - {replaceExtension (path file) ''.jpg''}\<rparr>
                     else s2
              | ReleaseBatch file \<Rightarrow> s1\<lparr>processing := processing s1 - {path file}\<rparr>))"

subsection \<open>Batch coordinator (batchResize)\<close>

record BatchCounts =
  resizedCount :: nat
  skippedCount :: nat
  errorCount :: nat

text \<open>The write-back of lines 395 to 408.\<close>

definition writeBackBatch ::
  "Host \<Rightarrow> ImageResizerPlugin \<Rightarrow> TFile \<Rightarrow> ResizeResult \<Rightarrow> error option \<times> ImageResizerPlugin" where
  "writeBackBatch host s file result =
     (case newExtension result of
        Some ext \<Rightarrow>
          if ext = [] then
            (let s1 = called s (ModifyBinary (path file))
             in case modifyBinary host s1 file (data result) of
                  Inl e \<Rightarrow> (Some e, s1)
                | Inr s2 \<Rightarrow> (None, s2))
          else
            (let newPath = replaceExtension (path file) (CHR ''.'' # ext);
                 s1 = called s (ModifyBinary (path file))
             in case modifyBinary host s1 file (data result) of
                  Inl e \<Rightarrow> (Some e, s1)
                | Inr s2 \<Rightarrow>
                    (case getAbstractFileByPath s2 newPath of
                       Some existingFile \<Rightarrow> (None, s2)
                     | None \<Rightarrow>
                         let s3 = s2\<lparr>processing := insert newPath (processing s2)\<rparr>;
                             s4 = called s3 (RenameFile (path file) newPath)
                         in (case renameFile host s4 file newPath of
                               Inl e \<Rightarrow> (Some e, s4)
                             | Inr s5 \<Rightarrow> (None, s5))))
      | None \<Rightarrow>
          (let s1 = called s (ModifyBinary (path file))
           in case modifyBinary host s1 file (data result) of
                Inl e \<Rightarrow> (Some e, s1)
              | Inr s2 \<Rightarrow> (None, s2)))"

text \<open>
  The \<open>try\<close> block of one iteration, with the counters it updates. The pause after a
  successful resize only delays the next iteration and is left out.
\<close>

definition batchTry ::
  "Host \<Rightarrow> ImageResizerPlugin \<Rightarrow> BatchCounts \<Rightarrow> TFile
     \<Rightarrow> error option \<times> ImageResizerPlugin \<times> BatchCounts" where
  "batchTry host s c file =
     (let s1 = called s (ReadBinary (path file))
      in case readBinary host s1 file of
           Inl e \<Rightarrow> (Some e, s1, c)
         | Inr dat \<Rightarrow>
             (let s2 = called s1 (ResizeImage (path file))
              in case resizeImage host dat (name file) (settings s2) of
                   Inl e \<Rightarrow> (Some e, s2, c)
                 | Inr None \<Rightarrow> (None, s2, c\<lparr>skippedCount := skippedCount c + 1\<rparr>)
                 | Inr (Some result) \<Rightarrow>
                     (let s3 = s2\<lparr>processing := insert (path file) (processing s2)\<rparr>
                      in case writeBackBatch host s3 file result of
                           (Some e, s4) \<Rightarrow> (Some e, s4, c)
                         | (None, s4) \<Rightarrow>
                             (None, s4, c\<lparr>resizedCount := resizedCount c + 1\<rparr>))))"

text \<open>One iteration of the loop: \<open>try\<close>, \<open>catch\<close>, \<open>finally\<close>.\<close>

definition batchIteration ::
  "Host \<Rightarrow> ImageResizerPlugin \<times> BatchCounts \<Rightarrow> TFile \<Rightarrow> ImageResizerPlugin \<times> BatchCounts" where
  "batchIteration host sc file =
     (case batchTry host (fst sc) (snd sc) file of
        (Some err, s', c') \<Rightarrow>
          (snd (setTimeout s' (ReleaseBatch file)), c'\<lparr>errorCount := errorCount c' + 1\<rparr>)
      | (None, s', c') \<Rightarrow> (snd (setTimeout s' (ReleaseBatch file)), c'))"

fun batchLoop ::
  "Host \<Rightarrow> ImageResizerPlugin \<times> BatchCounts \<Rightarrow> TFile list \<Rightarrow> ImageResizerPlugin \<times> BatchCounts" where
  "batchLoop host sc [] = sc"
| "batchLoop host sc (file # files) = batchLoop host (batchIteration host sc file) files"

definition batchResize ::
  "Host \<Rightarrow> ImageResizerPlugin \<Rightarrow> TFile list \<Rightarrow> string \<Rightarrow> ImageResizerPlugin" where
  "batchResize host s files scope =
     (if length files = 0 then Notice s (NoImagesFound scope)
      else
        let s1 = Notice s (Scanning (length files) scope);
            (s2, c) = batchLoop host
                        (s1, \<lparr>resizedCount = 0, skippedCount = 0, errorCount = 0\<rparr>) files
        in Notice s2 (BatchSummary (resizedCount c) (skippedCount c)
                        (if errorCount c > 0 then Some (errorCount c) else None)))"

section \<open>A toy host for concrete runs\<close>

text \<open>
  An image file of the toy host starts with its width and its height; anything shorter
  does not decode. The encoder yields the target size as bytes and, as browsers do,
  nothing for a canvas without area. No storage call fails on its own.
\<close>

definition toyHost :: Host where
  "toyHost =
     \<lparr>decodeImage = (\<lambda>d m. case d of
                         w # h # rest \<Rightarrow> Some \<lparr>naturalWidth = w, naturalHeight = h\<rparr>
                       | _ \<Rightarrow> None),
      canvasContext = (\<lambda>w h. True),
      toBlob = (\<lambda>d m w h outputMime q.
                  if w \<le> 0 \<or> h \<le> 0 then None else Some [nat w, nat h]),
      readFails = (\<lambda>p. False),
      modifyFails = (\<lambda>p. False),
      renameFails = (\<lambda>p q. False)\<rparr>"

text \<open>The plugin as its field initialisers leave it, over an empty vault.\<close>

definition newPlugin :: ImageResizerPlugin where
  "newPlugin =
     \<lparr>settings = DEFAULT_SETTINGS, processing = {}, pending = Map.empty, ready = False,
      vault = Map.empty, timers = [], nextTimer = 1, calls = [], notices = []\<rparr>"

definition toyFile :: "string \<Rightarrow> string \<Rightarrow> TFile" where
  "toyFile folder n = \<lparr>path = folder @ ''/'' @ n, name = n\<rparr>"

text \<open>A plugin that is ready, over a vault holding the given files.\<close>

definition toyPlugin :: "(TFile \<times> bytes) list \<Rightarrow> ImageResizerPlugin" where
  "toyPlugin stored =
     newPlugin\<lparr>ready := True, vault := map_of (map (\<lambda>(f, d). (path f, File d)) stored)\<rparr>"

section \<open>Predicates used to state the scheduler's properties\<close>

text \<open>The path a debounce timer will process; none for the other timers.\<close>

fun debouncePath :: "timer_action \<Rightarrow> string option" where
  "debouncePath (Debounce f) = Some (path f)"
| "debouncePath (ReleaseSingle f) = None"
| "debouncePath (ReleaseBatch f) = None"

text \<open>The armed debounce timers whose closure will process a given path.\<close>

definition debounceTimersFor :: "ImageResizerPlugin \<Rightarrow> string \<Rightarrow> (nat \<times> timer_action) list" where
  "debounceTimersFor s p = filter (\<lambda>(t, a). debouncePath a = Some p) (timers s)"

text \<open>
  The timer table is consistent with the pending map: handles are distinct, positive
  and older than the next handle, and every armed debounce timer is the one the
  pending map records for its path.
\<close>

definition timersConsistent :: "ImageResizerPlugin \<Rightarrow> bool" where
  "timersConsistent s =
     (0 < nextTimer s \<and> distinct (map fst (timers s))
      \<and> list_all (\<lambda>(t, a). 0 < t \<and> t < nextTimer s
                    \<and> map_option (pending s) (debouncePath a) \<in> {None, Some (Some t)})
           (timers s))"

text \<open>The calls an operation added to the record of calls.\<close>

definition newCalls :: "ImageResizerPlugin \<Rightarrow> ImageResizerPlugin \<Rightarrow> host_call list" where
  "newCalls s s' = drop (length (calls s)) (calls s')"

text \<open>A call made on behalf of a given path, and a state reached by such calls only.\<close>

definition callsAbout :: "string \<Rightarrow> host_call \<Rightarrow> bool" where
  "callsAbout p c =
     (case c of
        ReadBinary q \<Rightarrow> q = p
      | ResizeImage q \<Rightarrow> q = p
      | ModifyBinary q \<Rightarrow> q = p
      | RenameFile q q' \<Rightarrow> q = p)"

definition extendsCalls :: "string \<Rightarrow> ImageResizerPlugin \<Rightarrow> ImageResizerPlugin \<Rightarrow> bool" where
  "extendsCalls p s s' = (\<exists>new. calls s' = calls s @ new \<and> list_all (callsAbout p) new)"

text \<open>Two states with the same timer table, pending map and next handle.\<close>

definition sameTimers :: "ImageResizerPlugin \<Rightarrow> ImageResizerPlugin \<Rightarrow> bool" where
  "sameTimers s s' =
     (timers s' = timers s \<and> pending s' = pending s \<and> nextTimer s' = nextTimer s)"


section \<open>Properties of the rounding to a double\<close>

lemma roundHalfEven_err: "\<bar>of_int (roundHalfEven y) - y\<bar> \<le> 1 / 2"
proof -
  have "of_int \<lfloor>y\<rfloor> \<le> y" "y < of_int \<lfloor>y\<rfloor> + 1" by linarith+
  then show ?thesis by (auto simp add: roundHalfEven_def Let_def)
qed

lemma binaryExponent_bounds:
  assumes "0 < x"
  shows "2 powi binaryExponent x \<le> x \<and> x < 2 powi (binaryExponent x + 1)"
proof -
  obtain p q where pq: "quotient_of x = (p, q)" by (cases "quotient_of x")
  then have q: "0 < q" by (rule quotient_of_denom_pos)
  have x: "x = of_int p / of_int q" using pq by (rule quotient_of_div)
  have p: "0 < p" using assms q unfolding x by (simp add: zero_less_divide_iff)
  define bp where "bp = nat (bitlen p - 1)"
  define bq where "bq = nat (bitlen q - 1)"
  have lp: "bitlen p = int bp + 1" and lq: "bitlen q = int bq + 1"
    using p q by (simp_all add: bp_def bq_def bitlen_alt_def)
  have pb: "(2::int) ^ bp \<le> p" "p < 2 ^ Suc bp"
    using bitlen_bounds [OF p] unfolding lp by (simp_all add: nat_add_distrib)
  have qb: "(2::int) ^ bq \<le> q" "q < 2 ^ Suc bq"
    using bitlen_bounds [OF q] unfolding lq by (simp_all add: nat_add_distrib)
  have pr: "(2::rat) ^ bp \<le> of_int p" "(of_int p :: rat) < 2 ^ Suc bp"
    using pb by (metis of_int_le_iff of_int_numeral of_int_power, metis of_int_less_iff of_int_numeral of_int_power)
  have qr: "(2::rat) ^ bq \<le> of_int q" "(of_int q :: rat) < 2 ^ Suc bq"
    using qb by (metis of_int_le_iff of_int_numeral of_int_power, metis of_int_less_iff of_int_numeral of_int_power)
  have d: "bitlen p - bitlen q = int bp - int bq" by (simp add: lp lq)
  have low: "(2::rat) powi (int bp - int bq - 1) \<le> x"
  proof -
    have "(2::rat) powi (int bp - int bq - 1) = 2 ^ bp / 2 ^ Suc bq"
      by (simp add: power_int_diff)
    also have "\<dots> \<le> of_int p / of_int q"
      using pr qr q p by (intro frac_le) simp_all
    finally show ?thesis by (simp add: x)
  qed
  have up: "x < (2::rat) powi (int bp - int bq + 1)"
  proof -
    have "of_int p / of_int q < (2::rat) ^ Suc bp / 2 ^ bq"
      using pr qr q p by (intro frac_less) simp_all
    also have "\<dots> = (2::rat) powi (int bp - int bq + 1)"
      by (simp add: power_int_diff power_int_add)
    finally show ?thesis by (simp add: x)
  qed
  show ?thesis
  proof (cases "(2::rat) powi (int bp - int bq) \<le> x")
    case True
    then show ?thesis using up by (simp add: binaryExponent_def pq d)
  next
    case False
    then show ?thesis using low by (simp add: binaryExponent_def pq d)
  qed
qed

lemma roundToDouble_err:
  assumes "0 < x" shows "\<bar>roundToDouble x - x\<bar> \<le> unitRoundoff * x"
proof -
  define e where "e = binaryExponent x"
  define ulp :: rat where "ulp = 2 powi (e - 52)"
  have ulp_pos: "0 < ulp" by (simp add: ulp_def)
  have le: "2 powi e \<le> x" using binaryExponent_bounds [OF assms] by (simp add: e_def)
  have ulp_eq: "ulp = 2 powi e / 2 ^ 52" by (simp add: ulp_def power_int_diff)
  have fl: "roundToDouble x = of_int (roundHalfEven (x / ulp)) * ulp"
    using assms by (simp add: roundToDouble_def Let_def e_def ulp_def)
  have "roundToDouble x - x = (of_int (roundHalfEven (x / ulp)) - x / ulp) * ulp"
    using ulp_pos by (simp add: fl field_simps)
  then have "\<bar>roundToDouble x - x\<bar> = \<bar>of_int (roundHalfEven (x / ulp)) - x / ulp\<bar> * ulp"
    using ulp_pos by (simp add: abs_mult)
  also have "\<dots> \<le> (1 / 2) * ulp"
    using roundHalfEven_err [of "x / ulp"] ulp_pos by (intro mult_right_mono) simp_all
  also have "\<dots> = 2 powi e / 2 ^ 53" by (simp add: ulp_eq)
  also have "\<dots> \<le> x / 2 ^ 53" using le by (simp add: divide_right_mono)
  finally show ?thesis by (simp add: unitRoundoff_def)
qed

lemma roundToDouble_zero [simp]: "roundToDouble 0 = 0"
  by (simp add: roundToDouble_def)

lemma unitRoundoff_pos: "0 < unitRoundoff" and unitRoundoff_small: "unitRoundoff < 1"
  by (simp_all add: unitRoundoff_def)

lemma roundToDouble_bounds:
  assumes "0 < x"
  shows "(1 - unitRoundoff) * x \<le> roundToDouble x" "roundToDouble x \<le> (1 + unitRoundoff) * x"
  using roundToDouble_err [OF assms] by (simp_all add: abs_le_iff algebra_simps)

lemma roundToDouble_pos: "0 < x \<Longrightarrow> 0 < roundToDouble x"
proof -
  assume x: "0 < x"
  have "0 < (1 - unitRoundoff) * x" using x unitRoundoff_small by simp
  then show ?thesis using roundToDouble_bounds(1) [OF x] by linarith
qed

lemma Math_round_upper: "of_int (Math_round x) \<le> x + 1 / 2"
  unfolding Math_round_def by (rule of_int_floor_le)

lemma Math_round_lower: "x - 1 / 2 < of_int (Math_round x)"
  unfolding Math_round_def using floor_correct [of "x + 1 / 2"] by linarith

lemma Math_round_err: "\<bar>of_int (Math_round x) - x\<bar> \<le> 1 / 2"
  using Math_round_upper [of x] Math_round_lower [of x] by linarith

lemma Math_round_nonneg: "0 \<le> x \<Longrightarrow> 0 \<le> Math_round x"
  unfolding Math_round_def by simp

lemma Math_round_near_int:
  assumes "\<bar>y - of_int k\<bar> < 1 / 2" shows "Math_round y = k"
  unfolding Math_round_def using assms by (intro floor_unique) linarith+

lemma Math_round_below_int:
  assumes "y < of_int k + 1 / 2" shows "Math_round y \<le> k"
  unfolding Math_round_def using assms by (simp add: floor_le_iff)

lemma computeScale_cases:
  "computeScale w h mw mh = 1
   \<or> (0 < mw \<and> mw < w) \<or> (0 < mh \<and> mh < h)"
  by (auto simp add: computeScale_def Let_def)

lemma computeScale_le_1: "computeScale w h mw mh \<le> 1"
  by (auto simp add: computeScale_def Let_def min_def)

lemma computeScale_within:
  assumes "mw \<le> 0 \<or> w \<le> mw" "mh \<le> 0 \<or> h \<le> mh"
  shows "computeScale w h mw mh = 1"
  using assms by (auto simp add: computeScale_def Let_def)

lemma computeScale_form:
  "computeScale w h mw mh =
     min 1 (min (if 0 < mw \<and> mw < w then roundToDouble (mw / w) else 1)
                (if 0 < mh \<and> mh < h then roundToDouble (mh / h) else 1))"
  by (auto simp add: computeScale_def Let_def min_def)

lemma calculateDimensions_Some:
  "calculateDimensions w h mw mh = Some (tw, th) \<longleftrightarrow>
     computeScale w h mw mh < 1
     \<and> tw = Math_round (roundToDouble (w * computeScale w h mw mh))
     \<and> th = Math_round (roundToDouble (h * computeScale w h mw mh))"
  by (auto simp add: calculateDimensions_def Let_def)

lemma axisShrink_range: "0 < axisShrink orig limit \<and> axisShrink orig limit \<le> 1"
  by (auto simp add: axisShrink_def intro: divide_pos_pos)

lemma axis_factor_near:
  "(1 - unitRoundoff) * axisShrink orig limit
     \<le> (if 0 < limit \<and> limit < orig then roundToDouble (limit / orig) else 1)
   \<and> (if 0 < limit \<and> limit < orig then roundToDouble (limit / orig) else 1)
     \<le> (1 + unitRoundoff) * axisShrink orig limit"
proof (cases "0 < limit \<and> limit < orig")
  case True
  then have "0 < limit / orig" by (auto intro: divide_pos_pos)
  from roundToDouble_bounds [OF this] True show ?thesis by (simp add: axisShrink_def)
next
  case False
  then show ?thesis using unitRoundoff_pos by (auto simp add: axisShrink_def)
qed

lemma min_near:
  fixes a b A B u :: rat
  assumes u: "0 < u" "u < 1"
    and a: "(1 - u) * a \<le> A" "A \<le> (1 + u) * a" "0 < a" "a \<le> 1"
    and b: "(1 - u) * b \<le> B" "B \<le> (1 + u) * b" "0 < b" "b \<le> 1"
  shows "(1 - u) * min a b \<le> min 1 (min A B) \<and> min 1 (min A B) \<le> (1 + u) * min a b"
proof (cases "a \<le> b")
  case True
  have m: "(1 - u) * a \<le> (1 - u) * b" "(1 + u) * a \<le> (1 + u) * b"
    using True u by (simp_all add: mult_left_mono)
  have "(1 - u) * a \<le> 1 * 1" using u a by (intro mult_mono) simp_all
  then show ?thesis using True m a b by (simp add: min_def)
next
  case False
  then have ba: "b \<le> a" by simp
  have m: "(1 - u) * b \<le> (1 - u) * a" "(1 + u) * b \<le> (1 + u) * a"
    using ba u by (simp_all add: mult_left_mono)
  have "(1 - u) * b \<le> 1 * 1" using u b by (intro mult_mono) simp_all
  then show ?thesis using False m a b by (simp add: min_def)
qed

lemma computeScale_near:
  "(1 - unitRoundoff) * min (axisShrink w mw) (axisShrink h mh) \<le> computeScale w h mw mh
   \<and> computeScale w h mw mh \<le> (1 + unitRoundoff) * min (axisShrink w mw) (axisShrink h mh)"
  unfolding computeScale_form
  using axis_factor_near [of w mw] axis_factor_near [of h mh]
    axisShrink_range [of w mw] axisShrink_range [of h mh]
  by (intro min_near unitRoundoff_pos unitRoundoff_small) simp_all

lemma target_near:
  fixes x r s :: rat
  assumes x: "0 \<le> x" and r: "0 < r" "r \<le> 1"
    and s: "(1 - unitRoundoff) * r \<le> s" "s \<le> (1 + unitRoundoff) * r"
  shows "\<bar>roundToDouble (x * s) - x * r\<bar> \<le> 3 * unitRoundoff * x"
proof (cases "x = 0")
  case True
  then show ?thesis by simp
next
  case False
  with x have xp: "0 < x" by simp
  note u = unitRoundoff_pos unitRoundoff_small
  have ur: "unitRoundoff * r \<le> unitRoundoff" using u r by (simp add: mult_left_le)
  have sr: "\<bar>s - r\<bar> \<le> unitRoundoff * r" using s by (simp add: abs_le_iff algebra_simps)
  have sp: "0 < s"
  proof -
    have "0 < (1 - unitRoundoff) * r" using u r by simp
    then show ?thesis using s(1) by linarith
  qed
  have "s \<le> r + unitRoundoff * r" using s(2) by (simp add: algebra_simps)
  then have s2: "s \<le> 2" using ur r u by linarith
  have "\<bar>x * s - x * r\<bar> = x * \<bar>s - r\<bar>"
    using xp by (simp add: abs_mult right_diff_distrib [symmetric])
  also have "\<dots> \<le> x * unitRoundoff"
    using sr ur xp by (intro mult_left_mono) linarith+
  finally have d1: "\<bar>x * s - x * r\<bar> \<le> unitRoundoff * x" by (simp add: mult.commute)
  have "0 < x * s" using xp sp by simp
  then have "\<bar>roundToDouble (x * s) - x * s\<bar> \<le> unitRoundoff * (x * s)"
    by (rule roundToDouble_err)
  also have "\<dots> \<le> unitRoundoff * (x * 2)"
    using s2 xp u by (intro mult_left_mono) simp_all
  finally have d2: "\<bar>roundToDouble (x * s) - x * s\<bar> \<le> 2 * (unitRoundoff * x)" by simp
  from d1 d2 show ?thesis by linarith
qed

lemma roundoff_small:
  fixes x :: rat
  assumes "0 \<le> x" "x < 2 ^ 32"
  shows "3 * unitRoundoff * x < 1 / 2 ^ 19"
  using assms by (simp add: unitRoundoff_def)

lemma of_int_range:
  assumes "0 \<le> (w::int)" "w < 2 ^ 32"
  shows "(0::rat) \<le> of_int w" "(of_int w :: rat) < 2 ^ 32"
  using assms by (simp, metis of_int_less_iff of_int_numeral of_int_power)

text \<open>One axis of a plan, for a size below 2^32 and a scale near the exact factor.\<close>

lemma axis_target:
  fixes r s :: rat
  assumes w: "0 \<le> (w::int)" "w < 2 ^ 32" and r: "0 < r" "r \<le> 1"
    and s: "(1 - unitRoundoff) * r \<le> s" "s \<le> (1 + unitRoundoff) * r"
  shows "\<bar>of_int (Math_round (roundToDouble (of_int w * s))) - of_int w * r\<bar>
           \<le> 1 / 2 + 1 / 2 ^ 19"
    and "0 \<le> Math_round (roundToDouble (of_int w * s))"
    and "of_int w * r \<le> of_int k \<Longrightarrow> Math_round (roundToDouble (of_int w * s)) \<le> k"
    and "of_int w * r = of_int k \<Longrightarrow> Math_round (roundToDouble (of_int w * s)) = k"
proof -
  let ?y = "roundToDouble (of_int w * s)"
  note wr = of_int_range [OF w]
  have near: "\<bar>?y - of_int w * r\<bar> < 1 / 2 ^ 19"
    using target_near [OF wr(1) r s] roundoff_small [OF wr] by linarith
  show "\<bar>of_int (Math_round ?y) - of_int w * r\<bar> \<le> 1 / 2 + 1 / 2 ^ 19"
    using near Math_round_err [of ?y] by linarith
  have sp: "0 < s"
  proof -
    have "0 < (1 - unitRoundoff) * r" using unitRoundoff_small r by simp
    then show ?thesis using s(1) by linarith
  qed
  have "0 \<le> ?y"
  proof (cases "w = 0")
    case True
    then show ?thesis by simp
  next
    case False
    then have "0 < of_int w * s" using w sp by simp
    then show ?thesis using roundToDouble_pos by (simp add: less_imp_le)
  qed
  then show "0 \<le> Math_round ?y" by (rule Math_round_nonneg)
  show "Math_round ?y \<le> k" if "of_int w * r \<le> of_int k"
  proof (rule Math_round_below_int)
    have "(1::rat) / 2 ^ 19 < 1 / 2" by simp
    then show "?y < of_int k + 1 / 2" using near that by linarith
  qed
  show "Math_round ?y = k" if "of_int w * r = of_int k"
  proof (rule Math_round_near_int)
    have "(1::rat) / 2 ^ 19 < 1 / 2" by simp
    then show "\<bar>?y - of_int k\<bar> < 1 / 2" using near that by linarith
  qed
qed

lemma cross_bound:
  fixes a b c d :: int
  assumes d: "0 < d"
    and e: "\<bar>(of_int b :: rat) - of_int c * (of_int a / of_int d)\<bar> < 1"
  shows "\<bar>b * d - c * a\<bar> < d"
proof -
  have dq: "(0::rat) < of_int d" using d by simp
  have "(of_int b :: rat) * of_int d - of_int c * of_int a
          = (of_int b - of_int c * (of_int a / of_int d)) * of_int d"
    using dq by (simp add: field_simps)
  then have "\<bar>(of_int b :: rat) * of_int d - of_int c * of_int a\<bar>
          = \<bar>of_int b - of_int c * (of_int a / of_int d)\<bar> * of_int d"
    using dq by (simp add: abs_mult)
  also have "\<dots> < 1 * of_int d"
    using e dq by (intro mult_strict_right_mono) simp_all
  finally have "(of_int \<bar>b * d - c * a\<bar> :: rat) < of_int d"
    by simp
  then show ?thesis by (simp only: of_int_less_iff)
qed

lemma binding_axis:
  fixes w h mw mh :: int
  assumes lt: "computeScale (of_int w) (of_int h) (of_int mw) (of_int mh) < 1"
  shows "(0 < mw \<and> mw < w
            \<and> min (axisShrink (of_int w) (of_int mw)) (axisShrink (of_int h) (of_int mh))
                = of_int mw / of_int w)
       \<or> (0 < mh \<and> mh < h
            \<and> min (axisShrink (of_int w) (of_int mw)) (axisShrink (of_int h) (of_int mh))
                = of_int mh / of_int h)"
proof -
  let ?aw = "axisShrink (of_int w) (of_int mw) :: rat"
  let ?ah = "axisShrink (of_int h) (of_int mh) :: rat"
  from computeScale_cases [of "of_int w" "of_int h" "of_int mw" "of_int mh"] lt
  have act: "(0 < mw \<and> mw < w) \<or> (0 < mh \<and> mh < h)" by auto
  have aw: "?aw = (if 0 < mw \<and> mw < w then of_int mw / of_int w else 1)"
    by (simp add: axisShrink_def)
  have ah: "?ah = (if 0 < mh \<and> mh < h then of_int mh / of_int h else 1)"
    by (simp add: axisShrink_def)
  have lw: "0 < mw \<and> mw < w \<Longrightarrow> ?aw < 1" by (simp add: aw)
  have lh: "0 < mh \<and> mh < h \<Longrightarrow> ?ah < 1" by (simp add: ah)
  have r: "?aw \<le> 1" "?ah \<le> 1"
    using axisShrink_range [of "of_int w" "of_int mw"] axisShrink_range [of "of_int h" "of_int mh"]
    by simp_all
  show ?thesis
  proof (cases "?aw \<le> ?ah")
    case True
    then have m: "min ?aw ?ah = ?aw" by simp
    have "0 < mw \<and> mw < w"
    proof (rule ccontr)
      assume n: "\<not> (0 < mw \<and> mw < w)"
      then have "?aw = 1" by (simp add: aw)
      with True r have "?ah = 1" by simp
      moreover from n act have "0 < mh \<and> mh < h" by blast
      ultimately show False using lh by simp
    qed
    then show ?thesis using m aw by simp
  next
    case False
    then have m: "min ?aw ?ah = ?ah" by simp
    have "0 < mh \<and> mh < h"
    proof (rule ccontr)
      assume n: "\<not> (0 < mh \<and> mh < h)"
      then have "?ah = 1" by (simp add: ah)
      with False r show False by simp
    qed
    then show ?thesis using m ah by simp
  qed
qed

text \<open>The plans that later concrete runs use, evaluated once.\<close>

lemma planner_eval_default: "calculateDimensions 4000 1000 1920 1080 = Some (1920, 480)"
  by code_simp

lemma planner_eval_width_only: "calculateDimensions 4000 1000 1920 0 = Some (1920, 480)"
  by code_simp

lemma planner_eval_small: "calculateDimensions 800 600 1920 1080 = None"
  by code_simp

text \<open>
  Two ties of exact arithmetic that the doubles resolve downwards: 49 / 98 and
  2010 * 1080 / 2144 are one half and 1012 and a half, and the double products lie
  just below them.
\<close>

lemma planner_eval_tie_small: "calculateDimensions 98 49 1 0 = Some (1, 0)"
  by code_simp

lemma planner_eval_tie_large: "calculateDimensions 2010 2144 1920 1080 = Some (1012, 1080)"
  by code_simp

section \<open>Properties of the dimension planner\<close>

text \<open>
  The sizes of an image are below \<open>2^32\<close>: naturalWidth and naturalHeight are
  unsigned 32-bit values of the browser.
\<close>

text \<open>
  Claim C1, as stated: whenever the planner yields a target, both axes are at least 1,
  each being rounded and then forced up to 1. calculateDimensions rounds and does
  nothing more: a 4000 by 1 image under maxWidth 1920 (maxHeight 0) is planned at
  1920 by 0.
\<close>

theorem planner_zero_axis: "calculateDimensions 4000 1 1920 0 = Some (1920, 0)"
  by code_simp

text \<open>
  Claim C1, amended: for a positive integer size below \<open>2^32\<close> and non-negative
  integer limits, a target has each axis equal to \<open>Math.round\<close> of the double product
  original * scale, with no lower clamp; both axes are at least 0, and the axis whose
  limit fixes the scale equals that limit, which is at least 1.
\<close>

theorem planner_axes_not_clamped:
  assumes "0 < w" "w < 2 ^ 32" "0 < h" "h < 2 ^ 32" "0 \<le> mw" "0 \<le> mh"
    and plan: "calculateDimensions (of_int w) (of_int h) (of_int mw) (of_int mh) = Some (tw, th)"
  shows "tw = Math_round (roundToDouble
                (of_int w * computeScale (of_int w) (of_int h) (of_int mw) (of_int mh)))
       \<and> th = Math_round (roundToDouble
                (of_int h * computeScale (of_int w) (of_int h) (of_int mw) (of_int mh)))
       \<and> 0 \<le> tw \<and> 0 \<le> th
       \<and> ((0 < mw \<and> tw = mw) \<or> (0 < mh \<and> th = mh))"
proof -
  let ?s = "computeScale (of_int w) (of_int h) (of_int mw) (of_int mh)"
  let ?r = "min (axisShrink (of_int w) (of_int mw)) (axisShrink (of_int h) (of_int mh)) :: rat"
  from plan have lt: "?s < 1" and tw: "tw = Math_round (roundToDouble (of_int w * ?s))"
    and th: "th = Math_round (roundToDouble (of_int h * ?s))"
    by (simp_all add: calculateDimensions_Some)
  have r: "0 < ?r" "?r \<le> 1"
    using axisShrink_range [of "of_int w" "of_int mw"] axisShrink_range [of "of_int h" "of_int mh"]
    by (simp_all add: min_def)
  have s: "(1 - unitRoundoff) * ?r \<le> ?s" "?s \<le> (1 + unitRoundoff) * ?r"
    using computeScale_near [of "of_int w" "of_int mw" "of_int h" "of_int mh"] by simp_all
  have w0: "0 \<le> w" "0 \<le> h" using assms(1,3) by simp_all
  note aw = axis_target [OF w0(1) assms(2) r s]
  note ah = axis_target [OF w0(2) assms(4) r s]
  have nn: "0 \<le> tw" "0 \<le> th" unfolding tw th by (rule aw(2), rule ah(2))
  from binding_axis [OF lt]
  have "(0 < mw \<and> tw = mw) \<or> (0 < mh \<and> th = mh)"
  proof
    assume a: "0 < mw \<and> mw < w \<and> ?r = of_int mw / of_int w"
    then have "(of_int w :: rat) * ?r = of_int mw" using assms(1) by simp
    then have "tw = mw" unfolding tw by (rule aw(4))
    with a show ?thesis by simp
  next
    assume a: "0 < mh \<and> mh < h \<and> ?r = of_int mh / of_int h"
    then have "(of_int h :: rat) * ?r = of_int mh" using assms(3) by simp
    then have "th = mh" unfolding th by (rule ah(4))
    with a show ?thesis by simp
  qed
  with tw th nn show ?thesis by blast
qed

theorem planner_axes_not_clamped_witness:
  "(0::int) < 4000 \<and> (4000::int) < 2 ^ 32 \<and> (0::int) < 1 \<and> (1::int) < 2 ^ 32
   \<and> (0::int) \<le> 1920 \<and> (0::int) \<le> 0
   \<and> calculateDimensions (of_int 4000) (of_int 1) (of_int 1920) (of_int 0) = Some (1920, 0)
   \<and> (1920::int) = Math_round (roundToDouble (of_int 4000
         * computeScale (of_int 4000) (of_int 1) (of_int 1920) (of_int 0)))
   \<and> (0::int) = Math_round (roundToDouble (of_int 1
         * computeScale (of_int 4000) (of_int 1) (of_int 1920) (of_int 0)))"
proof -
  have p: "calculateDimensions (of_int 4000) (of_int 1) (of_int 1920) (of_int 0)
             = Some (1920, 0)"
    by code_simp
  have h: "(0::int) < 4000" "(4000::int) < 2 ^ 32" "(0::int) < 1" "(1::int) < 2 ^ 32"
    "(0::int) \<le> 1920" "(0::int) \<le> 0"
    by simp_all
  from planner_axes_not_clamped [OF h p] h p show ?thesis by blast
qed

text \<open>
  Claim C4: for positive integers w, h (below \<open>2^32\<close>) and integer limits maxW,
  maxH \<ge> 0 where the plan yields a target (tw, th): tw \<le> w and th \<le> h; one scale is
  applied to both axes, it is below 1 and is the minimum of the two per-axis shrink
  factors up to the rounding of one double division; each target axis is within a
  pixel (half a pixel and \<open>2^-19\<close>) of original times that minimum; and the axis that
  fixes the scale lands on its limit exactly while the other is within a pixel of
  the value that keeps the ratio w : h (written without division:
  \<open>|th * w - h * tw| < w\<close>, or the same with the axes exchanged).
\<close>

theorem planner_target_bounds:
  assumes "0 < w" "w < 2 ^ 32" "0 < h" "h < 2 ^ 32" "0 \<le> mw" "0 \<le> mh"
    and plan: "calculateDimensions (of_int w) (of_int h) (of_int mw) (of_int mh) = Some (tw, th)"
  shows "tw \<le> w \<and> th \<le> h
       \<and> tw = Math_round (roundToDouble
                (of_int w * computeScale (of_int w) (of_int h) (of_int mw) (of_int mh)))
       \<and> th = Math_round (roundToDouble
                (of_int h * computeScale (of_int w) (of_int h) (of_int mw) (of_int mh)))
       \<and> computeScale (of_int w) (of_int h) (of_int mw) (of_int mh) < 1
       \<and> (1 - unitRoundoff)
             * min (axisShrink (of_int w) (of_int mw)) (axisShrink (of_int h) (of_int mh))
           \<le> computeScale (of_int w) (of_int h) (of_int mw) (of_int mh)
       \<and> computeScale (of_int w) (of_int h) (of_int mw) (of_int mh)
           \<le> (1 + unitRoundoff)
               * min (axisShrink (of_int w) (of_int mw)) (axisShrink (of_int h) (of_int mh))
       \<and> \<bar>of_int tw - of_int w
             * min (axisShrink (of_int w) (of_int mw)) (axisShrink (of_int h) (of_int mh))\<bar>
           \<le> 1 / 2 + 1 / 2 ^ 19
       \<and> \<bar>of_int th - of_int h
             * min (axisShrink (of_int w) (of_int mw)) (axisShrink (of_int h) (of_int mh))\<bar>
           \<le> 1 / 2 + 1 / 2 ^ 19
       \<and> ((tw = mw \<and> \<bar>th * w - h * tw\<bar> < w) \<or> (th = mh \<and> \<bar>tw * h - w * th\<bar> < h))"
proof -
  let ?s = "computeScale (of_int w) (of_int h) (of_int mw) (of_int mh)"
  let ?r = "min (axisShrink (of_int w) (of_int mw)) (axisShrink (of_int h) (of_int mh)) :: rat"
  from plan have lt: "?s < 1" and tw: "tw = Math_round (roundToDouble (of_int w * ?s))"
    and th: "th = Math_round (roundToDouble (of_int h * ?s))"
    by (simp_all add: calculateDimensions_Some)
  have r: "0 < ?r" "?r \<le> 1"
    using axisShrink_range [of "of_int w" "of_int mw"] axisShrink_range [of "of_int h" "of_int mh"]
    by (simp_all add: min_def)
  have s: "(1 - unitRoundoff) * ?r \<le> ?s" "?s \<le> (1 + unitRoundoff) * ?r"
    using computeScale_near [of "of_int w" "of_int mw" "of_int h" "of_int mh"] by simp_all
  have w0: "0 \<le> w" "0 \<le> h" using assms(1,3) by simp_all
  note aw = axis_target [OF w0(1) assms(2) r s]
  note ah = axis_target [OF w0(2) assms(4) r s]
  have ew: "\<bar>of_int tw - of_int w * ?r\<bar> \<le> 1 / 2 + 1 / 2 ^ 19"
    unfolding tw by (rule aw(1))
  have eh: "\<bar>of_int th - of_int h * ?r\<bar> \<le> 1 / 2 + 1 / 2 ^ 19"
    unfolding th by (rule ah(1))
  have small: "(1::rat) / 2 + 1 / 2 ^ 19 < 1" by simp
  have "(of_int w :: rat) * ?r \<le> of_int w" using r(2) assms(1) by (simp add: mult_left_le)
  then have bw: "tw \<le> w" unfolding tw by (rule aw(3))
  have "(of_int h :: rat) * ?r \<le> of_int h" using r(2) assms(3) by (simp add: mult_left_le)
  then have bh: "th \<le> h" unfolding th by (rule ah(3))
  from binding_axis [OF lt]
  have "(tw = mw \<and> \<bar>th * w - h * tw\<bar> < w) \<or> (th = mh \<and> \<bar>tw * h - w * th\<bar> < h)"
  proof
    assume a: "0 < mw \<and> mw < w \<and> ?r = of_int mw / of_int w"
    then have "(of_int w :: rat) * ?r = of_int mw" using assms(1) by simp
    then have x: "tw = mw" unfolding tw by (rule aw(4))
    have "\<bar>(of_int th :: rat) - of_int h * (of_int tw / of_int w)\<bar> < 1"
      using eh small a x by simp
    then have "\<bar>th * w - h * tw\<bar> < w" using assms(1) by (intro cross_bound)
    with x show ?thesis by blast
  next
    assume a: "0 < mh \<and> mh < h \<and> ?r = of_int mh / of_int h"
    then have "(of_int h :: rat) * ?r = of_int mh" using assms(3) by simp
    then have x: "th = mh" unfolding th by (rule ah(4))
    have "\<bar>(of_int tw :: rat) - of_int w * (of_int th / of_int h)\<bar> < 1"
      using ew small a x by simp
    then have "\<bar>tw * h - w * th\<bar> < h" using assms(3) by (intro cross_bound)
    with x show ?thesis by blast
  qed
  with bw bh tw th lt s ew eh show ?thesis by blast
qed

theorem planner_target_bounds_witness:
  "(0::int) < 2010 \<and> (2010::int) < 2 ^ 32 \<and> (0::int) < 2144 \<and> (2144::int) < 2 ^ 32
   \<and> (0::int) \<le> 1920 \<and> (0::int) \<le> 1080
   \<and> calculateDimensions (of_int 2010) (of_int 2144) (of_int 1920) (of_int 1080)
        = Some (1012, 1080)
   \<and> (1012::int) \<le> 2010 \<and> (1080::int) \<le> 2144
   \<and> computeScale (of_int 2010) (of_int 2144) (of_int 1920) (of_int 1080) < 1
   \<and> \<bar>of_int 1012 - of_int 2010
         * min (axisShrink (of_int 2010) (of_int 1920)) (axisShrink (of_int 2144) (of_int 1080))\<bar>
       \<le> 1 / 2 + 1 / 2 ^ 19"
proof -
  have p: "calculateDimensions (of_int 2010) (of_int 2144) (of_int 1920) (of_int 1080)
             = Some (1012, 1080)"
    by code_simp
  have h: "(0::int) < 2010" "(2010::int) < 2 ^ 32" "(0::int) < 2144" "(2144::int) < 2 ^ 32"
    "(0::int) \<le> 1920" "(0::int) \<le> 1080"
    by simp_all
  from planner_target_bounds [OF h p] h p show ?thesis by blast
qed

text \<open>
  Claim C5: planning is idempotent. Where the planner yields a target (tw, th) for an
  image size (non-negative integers below \<open>2^32\<close>) under integer limits maxW, maxH,
  planning (tw, th) again under the same limits yields no resize.
\<close>

theorem planner_idempotent:
  assumes "0 \<le> w" "w < 2 ^ 32" "0 \<le> h" "h < 2 ^ 32"
    and plan: "calculateDimensions (of_int w) (of_int h) (of_int mw) (of_int mh) = Some (tw, th)"
  shows "calculateDimensions (of_int tw) (of_int th) (of_int mw) (of_int mh) = None"
proof -
  let ?s = "computeScale (of_int w) (of_int h) (of_int mw) (of_int mh)"
  let ?r = "min (axisShrink (of_int w) (of_int mw)) (axisShrink (of_int h) (of_int mh)) :: rat"
  from plan have tw: "tw = Math_round (roundToDouble (of_int w * ?s))"
    and th: "th = Math_round (roundToDouble (of_int h * ?s))"
    by (simp_all add: calculateDimensions_Some)
  have r: "0 < ?r" "?r \<le> 1"
    using axisShrink_range [of "of_int w" "of_int mw"] axisShrink_range [of "of_int h" "of_int mh"]
    by (simp_all add: min_def)
  have s: "(1 - unitRoundoff) * ?r \<le> ?s" "?s \<le> (1 + unitRoundoff) * ?r"
    using computeScale_near [of "of_int w" "of_int mw" "of_int h" "of_int mh"] by simp_all
  note aw = axis_target [OF assms(1,2) r s]
  note ah = axis_target [OF assms(3,4) r s]
  have "mw \<le> 0 \<or> tw \<le> mw"
  proof (cases "0 < mw")
    case False
    then show ?thesis by simp
  next
    case True
    have "(of_int w :: rat) * ?r \<le> of_int mw"
    proof (cases "mw < w")
      case True
      with \<open>0 < mw\<close> have "axisShrink (of_int w) (of_int mw) = (of_int mw :: rat) / of_int w"
        by (simp add: axisShrink_def)
      then have "?r \<le> of_int mw / of_int w" by simp
      moreover have "(0::rat) < of_int w" using True \<open>0 < mw\<close> by simp
      ultimately show ?thesis by (simp add: pos_le_divide_eq mult.commute)
    next
      case False
      have "(of_int w :: rat) * ?r \<le> of_int w * 1"
        using r(2) assms(1) by (intro mult_left_mono) simp_all
      then show ?thesis using False by simp
    qed
    then have "tw \<le> mw" unfolding tw by (rule aw(3))
    then show ?thesis by simp
  qed
  moreover have "mh \<le> 0 \<or> th \<le> mh"
  proof (cases "0 < mh")
    case False
    then show ?thesis by simp
  next
    case True
    have "(of_int h :: rat) * ?r \<le> of_int mh"
    proof (cases "mh < h")
      case True
      with \<open>0 < mh\<close> have "axisShrink (of_int h) (of_int mh) = (of_int mh :: rat) / of_int h"
        by (simp add: axisShrink_def)
      then have "?r \<le> of_int mh / of_int h" by simp
      moreover have "(0::rat) < of_int h" using True \<open>0 < mh\<close> by simp
      ultimately show ?thesis by (simp add: pos_le_divide_eq mult.commute)
    next
      case False
      have "(of_int h :: rat) * ?r \<le> of_int h * 1"
        using r(2) assms(3) by (intro mult_left_mono) simp_all
      then show ?thesis using False by simp
    qed
    then have "th \<le> mh" unfolding th by (rule ah(3))
    then show ?thesis by simp
  qed
  ultimately have "computeScale (of_int tw) (of_int th) (of_int mw) (of_int mh) = 1"
    by (intro computeScale_within) simp_all
  then show ?thesis by (simp add: calculateDimensions_def)
qed

theorem planner_idempotent_witness:
  "(0::int) \<le> 2010 \<and> (2010::int) < 2 ^ 32 \<and> (0::int) \<le> 2144 \<and> (2144::int) < 2 ^ 32
   \<and> calculateDimensions (of_int 2010) (of_int 2144) (of_int 1920) (of_int 1080)
        = Some (1012, 1080)
   \<and> calculateDimensions (of_int 1012) (of_int 1080) (of_int 1920) (of_int 1080) = None"
proof -
  have p: "calculateDimensions (of_int 2010) (of_int 2144) (of_int 1920) (of_int 1080)
             = Some (1012, 1080)"
    by code_simp
  have h: "(0::int) \<le> 2010" "(2010::int) < 2 ^ 32" "(0::int) \<le> 2144" "(2144::int) < 2 ^ 32"
    by simp_all
  from planner_idempotent [OF h p] h p show ?thesis by blast
qed

section \<open>Properties of the extension test\<close>

lemma split_not_Nil: "split sep s \<noteq> []"
  by (induction s) (auto split: list.splits)

lemma split_no_sep: "sep \<notin> set e \<Longrightarrow> split sep e = [e]"
  by (induction e) auto

lemma length_split_sep: "2 \<le> length (split sep (s @ sep # e))"
proof (induction s)
  case Nil
  have "split sep e \<noteq> []" by (rule split_not_Nil)
  then show ?case by (cases "split sep e") auto
next
  case (Cons c s)
  then show ?case by (auto split: list.splits)
qed

lemma last_split_sep: "last (split sep (s @ sep # e)) = last (split sep e)"
proof (induction s)
  case Nil
  then show ?case by (simp add: split_not_Nil)
next
  case (Cons c s)
  show ?case
  proof (cases "c = sep")
    case True
    then show ?thesis using Cons by (simp add: split_not_Nil)
  next
    case False
    obtain seg segs where sp: "split sep (s @ sep # e) = seg # segs"
      using split_not_Nil [of sep "s @ sep # e"] by (cases "split sep (s @ sep # e)") auto
    with length_split_sep [of sep s e] have "segs \<noteq> []" by auto
    then show ?thesis using False sp Cons by simp
  qed
qed

lemma getExtension_dot:
  "CHR ''.'' \<notin> set e \<Longrightarrow> getExtension (s @ CHR ''.'' # e) = toLowerCase e"
  by (simp add: getExtension_def pop_def split_not_Nil last_split_sep split_no_sep)

lemma getExtension_no_dot:
  "CHR ''.'' \<notin> set e \<Longrightarrow> getExtension e = toLowerCase e"
  by (simp add: getExtension_def pop_def split_no_sep)

lemma isImageFile_getExtension: "isImageFile f = (getExtension f \<in> IMAGE_EXTENSIONS)"
  by (simp add: isImageFile_def getExtension_def)

text \<open>
  Claim C9: isImageFile takes the lower-cased text after the last dot as the
  extension, and the whole lower-cased name when the name has no dot. So a file named
  exactly png, jpg, jpeg, webp or bmp is reported as an image, and a name whose last
  dot-segment is outside the five extensions is not.
\<close>

theorem isImageFile_last_segment:
  assumes "CHR ''.'' \<notin> set e"
  shows "isImageFile (s @ CHR ''.'' # e) = (toLowerCase e \<in> IMAGE_EXTENSIONS)
       \<and> isImageFile e = (toLowerCase e \<in> IMAGE_EXTENSIONS)
       \<and> isImageFile ''png'' \<and> isImageFile ''jpg'' \<and> isImageFile ''jpeg''
       \<and> isImageFile ''webp'' \<and> isImageFile ''bmp''"
proof -
  have five: "isImageFile ''png''" "isImageFile ''jpg''" "isImageFile ''jpeg''"
    "isImageFile ''webp''" "isImageFile ''bmp''"
    by (simp_all add: isImageFile_def pop_def toLowerCase_def IMAGE_EXTENSIONS_def)
  show ?thesis using assms five
    by (simp add: isImageFile_getExtension getExtension_dot getExtension_no_dot)
qed

theorem isImageFile_last_segment_witness:
  "CHR ''.'' \<notin> set ''PNG''
   \<and> isImageFile ''photo.v2.PNG'' \<and> isImageFile ''PNG''
   \<and> CHR ''.'' \<notin> set ''txt''
   \<and> \<not> isImageFile ''png.txt'' \<and> \<not> isImageFile ''txt''"
  using isImageFile_last_segment [of "''PNG''" "''photo.v2''"]
    isImageFile_last_segment [of "''txt''" "''png''"]
  by (simp add: toLowerCase_def IMAGE_EXTENSIONS_def char_of_eq_iff)

section \<open>Properties of the resize engine\<close>

lemma floor_div_numeral_rat: "\<lfloor>(numeral a :: rat) / numeral b\<rfloor> = numeral a div numeral b"
  using floor_divide_of_int_eq [of "numeral a" "numeral b", where ?'a = rat] by simp

lemmas eval_strings =
  getExtension_def isImageFile_def pop_def toLowerCase_def char_of_eq_iff getMimeType_def
  IMAGE_EXTENSIONS_def

lemmas eval_engine =
  resizeImage_def loadImage_def planner_eval_default planner_eval_width_only
  planner_eval_small Math_round_def floor_div_numeral_rat toyHost_def DEFAULT_SETTINGS_def

lemma calculateDimensions_None:
  "calculateDimensions w h mw mh = None \<longleftrightarrow> 1 \<le> computeScale w h mw mh"
  by (simp add: calculateDimensions_def Let_def)

lemma resizeImage_newExtension:
  assumes "resizeImage host dat filename st = Inr (Some r)"
  shows "newExtension r
           = (if convertToJpeg st \<and> getExtension filename = ''png'' then Some ''jpg'' else None)"
  using assms
  by (auto simp add: resizeImage_def Let_def split: sum.splits option.splits if_splits prod.splits)

lemma vault_called [simp]: "vault (called s c) = vault s"
  by (simp add: called_def)
lemma vault_Notice [simp]: "vault (Notice s n) = vault s"
  by (simp add: Notice_def)
lemma vault_setTimeout [simp]: "vault (snd (setTimeout s a)) = vault s"
  by (simp add: setTimeout_def)
lemma calls_Notice [simp]: "calls (Notice s n) = calls s"
  by (simp add: Notice_def)
lemma calls_called [simp]: "calls (called s c) = calls s @ [c]"
  by (simp add: called_def)
lemma calls_setTimeout [simp]: "calls (snd (setTimeout s a)) = calls s"
  by (simp add: setTimeout_def)
lemma settings_called [simp]: "settings (called s c) = settings s"
  by (simp add: called_def)

lemma writeBackSingle_no_conversion:
  assumes "newExtension r = None"
  shows "calls (snd (writeBackSingle host s file r)) = calls s @ [ModifyBinary (path file)]"
  using assms
  by (auto simp add: writeBackSingle_def modifyBinary_def Let_def split: option.splits entry.splits)

lemma writeBackBatch_no_conversion:
  assumes "newExtension r = None"
  shows "calls (snd (writeBackBatch host s file r)) = calls s @ [ModifyBinary (path file)]"
  using assms
  by (auto simp add: writeBackBatch_def modifyBinary_def Let_def split: option.splits entry.splits)

lemma getMimeType_spec: "getMimeType ext = specMimeOfExtension ext"
  by (simp add: getMimeType_def specMimeOfExtension_def)

lemma resizeImage_encoded:
  assumes "resizeImage host dat filename st = Inr (Some r)"
  shows "toBlob host dat (getMimeType (getExtension filename)) (width r) (height r)
           (if convertToJpeg st \<and> getExtension filename = ''png'' then ''image/jpeg''
            else getMimeType (getExtension filename))
           (if (if convertToJpeg st \<and> getExtension filename = ''png'' then ''image/jpeg''
                else getMimeType (getExtension filename)) = ''image/png''
            then None else Some (roundToDouble (of_int (jpegQuality st) / 100)))
         = Some (data r)"
  using assms
  by (auto simp add: resizeImage_def Let_def split: sum.splits option.splits if_splits prod.splits)

text \<open>
  Claim C8: for every successful resize, newExtension is non-null if and only if a
  format conversion happened, that is, the (lower-cased) input extension is png and
  convertToJpeg is set. It is then jpg, and the bytes of the result are what the
  encoder returns for the output type image/jpeg from an input read as image/png. In
  every other case newExtension is null, the bytes are what the encoder returns for
  the type of the input's own extension, and the callers write them back under the
  file's own path, renaming nothing.
\<close>

theorem newExtension_iff_conversion:
  assumes "resizeImage host dat filename st = Inr (Some r)"
  shows "(newExtension r \<noteq> None) = (convertToJpeg st \<and> getExtension filename = ''png'')
       \<and> (if convertToJpeg st \<and> getExtension filename = ''png''
           then newExtension r = Some ''jpg''
              \<and> specMimeOfExtension (getExtension filename) = ''image/png''
              \<and> toBlob host dat ''image/png'' (width r) (height r) ''image/jpeg''
                   (Some (roundToDouble (of_int (jpegQuality st) / 100))) = Some (data r)
           else newExtension r = None
              \<and> toBlob host dat (specMimeOfExtension (getExtension filename))
                   (width r) (height r) (specMimeOfExtension (getExtension filename))
                   (if specMimeOfExtension (getExtension filename) = ''image/png'' then None
                    else Some (roundToDouble (of_int (jpegQuality st) / 100))) = Some (data r)
              \<and> calls (snd (writeBackSingle host s file r))
                   = calls s @ [ModifyBinary (path file)]
              \<and> calls (snd (writeBackBatch host s file r))
                   = calls s @ [ModifyBinary (path file)])"
proof (cases "convertToJpeg st \<and> getExtension filename = ''png''")
  case True
  then have m: "specMimeOfExtension (getExtension filename) = ''image/png''"
    by (simp add: specMimeOfExtension_def)
  from resizeImage_encoded [OF assms] True m
  have "toBlob host dat ''image/png'' (width r) (height r) ''image/jpeg''
          (Some (roundToDouble (of_int (jpegQuality st) / 100))) = Some (data r)"
    by (simp add: getMimeType_spec)
  then show ?thesis using True m resizeImage_newExtension [OF assms] by simp
next
  case False
  from resizeImage_encoded [OF assms] False
  have "toBlob host dat (specMimeOfExtension (getExtension filename))
          (width r) (height r) (specMimeOfExtension (getExtension filename))
          (if specMimeOfExtension (getExtension filename) = ''image/png'' then None
           else Some (roundToDouble (of_int (jpegQuality st) / 100))) = Some (data r)"
    by (simp add: getMimeType_spec)
  moreover have n: "newExtension r = None"
    using False resizeImage_newExtension [OF assms] by auto
  ultimately show ?thesis
    unfolding if_not_P [OF False]
    using False by (simp add: writeBackSingle_no_conversion writeBackBatch_no_conversion)
qed

theorem newExtension_iff_conversion_witness:
  "resizeImage toyHost [4000, 1000] ''a.PNG''
       (DEFAULT_SETTINGS\<lparr>convertToJpeg := True, maxHeight := 0\<rparr>)
     = Inr (Some \<lparr>data = [1920, 480], width = 1920, height = 480, originalWidth = 4000,
                  originalHeight = 1000, newExtension = Some ''jpg''\<rparr>)
   \<and> resizeImage toyHost [4000, 1000] ''a.jpeg''
       (DEFAULT_SETTINGS\<lparr>convertToJpeg := True, maxHeight := 0\<rparr>)
     = Inr (Some \<lparr>data = [1920, 480], width = 1920, height = 480, originalWidth = 4000,
                  originalHeight = 1000, newExtension = None\<rparr>)
   \<and> getExtension ''a.PNG'' = ''png'' \<and> getExtension ''a.jpeg'' \<noteq> ''png''
   \<and> toBlob toyHost [4000, 1000] ''image/png'' 1920 480 ''image/jpeg'' (Some (roundToDouble (85 / 100)))
     = Some [1920, 480]"
proof -
  have a: "resizeImage toyHost [4000, 1000] ''a.PNG''
       (DEFAULT_SETTINGS\<lparr>convertToJpeg := True, maxHeight := 0\<rparr>)
     = Inr (Some \<lparr>data = [1920, 480], width = 1920, height = 480, originalWidth = 4000,
                  originalHeight = 1000, newExtension = Some ''jpg''\<rparr>)"
    by (simp add: eval_strings eval_engine)
  have b: "resizeImage toyHost [4000, 1000] ''a.jpeg''
       (DEFAULT_SETTINGS\<lparr>convertToJpeg := True, maxHeight := 0\<rparr>)
     = Inr (Some \<lparr>data = [1920, 480], width = 1920, height = 480, originalWidth = 4000,
                  originalHeight = 1000, newExtension = None\<rparr>)"
    by (simp add: eval_strings eval_engine)
  have e: "getExtension ''a.PNG'' = ''png''" "getExtension ''a.jpeg'' \<noteq> ''png''"
    by (simp_all add: eval_strings)
  from newExtension_iff_conversion [OF a] newExtension_iff_conversion [OF b] a b e
  show ?thesis by (simp add: DEFAULT_SETTINGS_def)
qed

lemma resizeImage_None:
  assumes "decodeImage host dat (getMimeType (getExtension filename)) = Some img"
    and "1 \<le> computeScale (of_nat (naturalWidth img)) (of_nat (naturalHeight img))
                (of_int (maxWidth st)) (of_int (maxHeight st))"
  shows "resizeImage host dat filename st = Inr None"
proof -
  have "calculateDimensions (of_nat (naturalWidth img)) (of_nat (naturalHeight img))
          (of_int (maxWidth st)) (of_int (maxHeight st)) = None"
    using assms(2) by (simp add: calculateDimensions_None)
  then show ?thesis using assms(1) by (simp add: resizeImage_def loadImage_def Let_def)
qed

lemma processFileTry_within:
  assumes "vault s (path file) = Some (File dat)"
    and "resizeImage host dat (name file) (settings s) = Inr None"
  shows "vault (snd (processFileTry host s file)) = vault s"
  using assms by (simp add: processFileTry_def readBinary_def called_def Let_def)

lemma processFile_within:
  assumes "vault s (path file) = Some (File dat)"
    and "resizeImage host dat (name file) (settings s) = Inr None"
  shows "vault (processFile host s file) = vault s"
proof -
  let ?s1 = "s\<lparr>processing := insert (path file) (processing s)\<rparr>"
  have "vault (snd (processFileTry host ?s1 file)) = vault ?s1"
    using assms by (intro processFileTry_within) simp_all
  then show ?thesis
    by (cases "processFileTry host ?s1 file")
       (auto simp add: processFile_def Let_def split: option.splits)
qed

lemma batchIteration_within:
  assumes "vault s (path file) = Some (File dat)"
    and "resizeImage host dat (name file) (settings s) = Inr None"
  shows "vault (fst (batchIteration host (s, c) file)) = vault s"
  using assms
  by (simp add: batchIteration_def batchTry_def readBinary_def called_def Let_def)

text \<open>
  Claim C3: whenever the computed scale is at least 1, in particular when maxWidth and
  maxHeight are both 0 and when the image is at or below every active limit, the
  planner returns no target and resizeImage returns null; the stored bytes are left as
  they are by the single-file path and by a batch iteration.
\<close>

theorem no_resize_within_bounds:
  assumes load: "decodeImage host dat (getMimeType (getExtension (name file))) = Some img"
    and within:
      "1 \<le> computeScale (of_nat (naturalWidth img)) (of_nat (naturalHeight img))
             (of_int (maxWidth (settings s))) (of_int (maxHeight (settings s)))
       \<or> (maxWidth (settings s) = 0 \<and> maxHeight (settings s) = 0)
       \<or> ((maxWidth (settings s) = 0 \<or> int (naturalWidth img) \<le> maxWidth (settings s))
          \<and> (maxHeight (settings s) = 0 \<or> int (naturalHeight img) \<le> maxHeight (settings s)))"
    and stored: "vault s (path file) = Some (File dat)"
  shows "calculateDimensions (of_nat (naturalWidth img)) (of_nat (naturalHeight img))
           (of_int (maxWidth (settings s))) (of_int (maxHeight (settings s))) = None
       \<and> resizeImage host dat (name file) (settings s) = Inr None
       \<and> vault (processFile host s file) = vault s
       \<and> vault (fst (batchIteration host (s, c) file)) = vault s"
proof -
  let ?sc = "computeScale (of_nat (naturalWidth img)) (of_nat (naturalHeight img))
               (of_int (maxWidth (settings s))) (of_int (maxHeight (settings s)))"
  from within have sc: "1 \<le> ?sc"
  proof (elim disjE)
    assume "1 \<le> ?sc" then show ?thesis .
  next
    assume "maxWidth (settings s) = 0 \<and> maxHeight (settings s) = 0"
    then have "?sc = 1" by (intro computeScale_within) simp_all
    then show ?thesis by simp
  next
    assume a: "(maxWidth (settings s) = 0 \<or> int (naturalWidth img) \<le> maxWidth (settings s))
          \<and> (maxHeight (settings s) = 0 \<or> int (naturalHeight img) \<le> maxHeight (settings s))"
    have "(of_int (maxWidth (settings s)) :: rat) \<le> 0
            \<or> (of_nat (naturalWidth img) :: rat) \<le> of_int (maxWidth (settings s))"
      using a by (metis of_int_0 of_int_le_iff of_int_of_nat_eq order_refl)
    moreover have "(of_int (maxHeight (settings s)) :: rat) \<le> 0
            \<or> (of_nat (naturalHeight img) :: rat) \<le> of_int (maxHeight (settings s))"
      using a by (metis of_int_0 of_int_le_iff of_int_of_nat_eq order_refl)
    ultimately have "?sc = 1" by (rule computeScale_within)
    then show ?thesis by simp
  qed
  have r: "resizeImage host dat (name file) (settings s) = Inr None"
    using load sc by (rule resizeImage_None)
  show ?thesis
    using sc r processFile_within [OF stored r] batchIteration_within [OF stored r]
    by (simp add: calculateDimensions_None)
qed

theorem no_resize_within_bounds_witness:
  "decodeImage toyHost [800, 600] (getMimeType (getExtension (name (toyFile ''pics'' ''small.jpg''))))
     = Some \<lparr>naturalWidth = 800, naturalHeight = 600\<rparr>
   \<and> vault (toyPlugin [(toyFile ''pics'' ''small.jpg'', [800, 600])])
        (path (toyFile ''pics'' ''small.jpg'')) = Some (File [800, 600])
   \<and> resizeImage toyHost [800, 600] (name (toyFile ''pics'' ''small.jpg''))
        (settings (toyPlugin [(toyFile ''pics'' ''small.jpg'', [800, 600])])) = Inr None
   \<and> vault (processFile toyHost (toyPlugin [(toyFile ''pics'' ''small.jpg'', [800, 600])])
        (toyFile ''pics'' ''small.jpg''))
      = vault (toyPlugin [(toyFile ''pics'' ''small.jpg'', [800, 600])])"
proof -
  let ?f = "toyFile ''pics'' ''small.jpg''"
  let ?s = "toyPlugin [(?f, [800, 600])]"
  have load: "decodeImage toyHost [800, 600] (getMimeType (getExtension (name ?f)))
                = Some \<lparr>naturalWidth = 800, naturalHeight = 600\<rparr>"
    by (simp add: toyHost_def)
  have stored: "vault ?s (path ?f) = Some (File [800, 600])"
    by (simp add: toyPlugin_def newPlugin_def toyFile_def)
  have within:
    "1 \<le> computeScale (of_nat (naturalWidth \<lparr>naturalWidth = 800, naturalHeight = 600\<rparr>))
            (of_nat (naturalHeight \<lparr>naturalWidth = 800, naturalHeight = 600\<rparr>))
            (of_int (maxWidth (settings ?s))) (of_int (maxHeight (settings ?s)))
     \<or> (maxWidth (settings ?s) = 0 \<and> maxHeight (settings ?s) = 0)
     \<or> ((maxWidth (settings ?s) = 0
           \<or> int (naturalWidth \<lparr>naturalWidth = 800, naturalHeight = 600\<rparr>)
               \<le> maxWidth (settings ?s))
        \<and> (maxHeight (settings ?s) = 0
           \<or> int (naturalHeight \<lparr>naturalWidth = 800, naturalHeight = 600\<rparr>)
               \<le> maxHeight (settings ?s)))"
    by (simp add: toyPlugin_def newPlugin_def DEFAULT_SETTINGS_def)
  from no_resize_within_bounds [OF load within stored] load stored
  show ?thesis by blast
qed

section \<open>Properties of the processing guard\<close>

lemma newCalls_refl [simp]: "newCalls s s = []"
  by (simp add: newCalls_def)

lemma extendsCalls_refl: "calls s' = calls s \<Longrightarrow> extendsCalls p s s'"
  by (simp add: extendsCalls_def)

lemma extendsCalls_trans:
  "extendsCalls p s s' \<Longrightarrow> extendsCalls p s' s'' \<Longrightarrow> extendsCalls p s s''"
  by (auto simp add: extendsCalls_def)

lemma extendsCalls_called: "callsAbout p c \<Longrightarrow> extendsCalls p s (called s c)"
  by (simp add: extendsCalls_def)

lemma calls_modifyBinary: "modifyBinary host s file d = Inr s' \<Longrightarrow> calls s' = calls s"
  by (auto simp add: modifyBinary_def split: if_splits option.splits entry.splits)

lemma calls_renameFile: "renameFile host s file q = Inr s' \<Longrightarrow> calls s' = calls s"
  by (auto simp add: renameFile_def split: if_splits option.splits)

lemma writeBackSingle_calls: "extendsCalls (path file) s (snd (writeBackSingle host s file r))"
  by (auto simp add: writeBackSingle_def extendsCalls_def callsAbout_def Let_def
        getAbstractFileByPath_def
      dest!: calls_modifyBinary calls_renameFile split: option.splits sum.splits)

lemma writeBackBatch_calls: "extendsCalls (path file) s (snd (writeBackBatch host s file r))"
  by (auto simp add: writeBackBatch_def extendsCalls_def callsAbout_def Let_def
        getAbstractFileByPath_def
      dest!: calls_modifyBinary calls_renameFile split: option.splits sum.splits)


lemma processFileTry_calls: "extendsCalls (path file) s (snd (processFileTry host s file))"
proof -
  let ?s1 = "called s (ReadBinary (path file))"
  let ?s2 = "called ?s1 (ResizeImage (path file))"
  have a: "extendsCalls (path file) s ?s1"
    by (simp add: extendsCalls_called callsAbout_def)
  have b: "extendsCalls (path file) s ?s2"
    using a by (rule extendsCalls_trans) (simp add: extendsCalls_called callsAbout_def)
  have c: "extendsCalls (path file) s s3"
    if "writeBackSingle host ?s2 file r = (e, s3)" for r e s3
    using extendsCalls_trans [OF b writeBackSingle_calls [where s = "?s2" and host = host and r = r]]
      that by simp
  have d: "extendsCalls (path file) s (Notice s3 n)"
    if "writeBackSingle host ?s2 file r = (e, s3)" for r e s3 n
    using c [OF that] by (simp add: extendsCalls_def)
  show ?thesis
    using a b c d
    by (auto simp add: processFileTry_def Let_def split: sum.splits option.splits prod.splits)
qed

lemma processFile_calls: "extendsCalls (path file) s (processFile host s file)"
proof -
  let ?s1 = "s\<lparr>processing := insert (path file) (processing s)\<rparr>"
  have "extendsCalls (path file) ?s1 (snd (processFileTry host ?s1 file))"
    by (rule processFileTry_calls)
  then have "extendsCalls (path file) s (snd (processFileTry host ?s1 file))"
    by (simp add: extendsCalls_def)
  then show ?thesis
    by (cases "processFileTry host ?s1 file")
       (auto simp add: processFile_def Let_def extendsCalls_def split: option.splits)
qed

lemma processFile_guarded: "path file \<in> processing s \<Longrightarrow> processFile host s file = s"
  by (simp add: processFile_def)

lemma scheduleResize_guarded: "path file \<in> processing s \<Longrightarrow> scheduleResize s file = s"
  by (simp add: scheduleResize_def)

lemma extendsCalls_other:
  assumes "extendsCalls p s s'" "\<not> callsAbout p c"
  shows "c \<notin> set (newCalls s s')"
  using assms by (auto simp add: extendsCalls_def newCalls_def list_all_iff)

lemma fireTimer_guarded:
  assumes "path file \<in> processing s"
    and "\<And>p. p \<noteq> path file \<Longrightarrow> \<not> callsAbout p c"
  shows "c \<notin> set (newCalls s (fireTimer host s t))"
proof (cases "map_of (timers s) t")
  case None
  then show ?thesis by (simp add: fireTimer_def)
next
  case (Some action)
  show ?thesis
  proof (cases action)
    case (Debounce g)
    let ?s1 = "(clearTimeout s t)\<lparr>pending := (pending (clearTimeout s t))(path g := None)\<rparr>"
    have ft: "fireTimer host s t = processFile host ?s1 g"
      using Some Debounce by (simp add: fireTimer_def Let_def)
    have cs: "calls ?s1 = calls s" by (simp add: clearTimeout_def)
    show ?thesis
    proof (cases "path g = path file")
      case True
      then have "path g \<in> processing ?s1" using assms(1) by (simp add: clearTimeout_def)
      then have "processFile host ?s1 g = ?s1" by (rule processFile_guarded)
      then show ?thesis using ft cs by (simp add: newCalls_def)
    next
      case False
      then have n: "\<not> callsAbout (path g) c" by (rule assms(2))
      have "extendsCalls (path g) ?s1 (processFile host ?s1 g)" by (rule processFile_calls)
      then have "c \<notin> set (newCalls ?s1 (processFile host ?s1 g))"
        using n by (rule extendsCalls_other)
      then show ?thesis using ft cs by (simp add: newCalls_def)
    qed
  next
    case (ReleaseSingle g)
    then show ?thesis using Some
      by (simp add: fireTimer_def Let_def clearTimeout_def newCalls_def)
  next
    case (ReleaseBatch g)
    then show ?thesis using Some
      by (simp add: fireTimer_def Let_def clearTimeout_def newCalls_def)
  qed
qed

text \<open>
  Claim C2: a path that is in the processing set is never handed to the resize engine
  by the event-driven path. scheduleResize arms nothing for it (the state is
  unchanged, for a create or modify event alike), processFile returns at once with the
  state unchanged, and whatever timer fires, the calls it makes include neither a
  read of that path nor a resize of it.
\<close>

theorem guarded_path_never_processed:
  assumes "path file \<in> processing s"
  shows "scheduleResize s file = s
       \<and> onVaultEvent s (IsFile file) = s
       \<and> processFile host s file = s
       \<and> ReadBinary (path file) \<notin> set (newCalls s (fireTimer host s t))
       \<and> ResizeImage (path file) \<notin> set (newCalls s (fireTimer host s t))"
proof -
  have "ReadBinary (path file) \<notin> set (newCalls s (fireTimer host s t))"
    using assms by (rule fireTimer_guarded) (auto simp add: callsAbout_def)
  moreover have "ResizeImage (path file) \<notin> set (newCalls s (fireTimer host s t))"
    using assms by (rule fireTimer_guarded) (auto simp add: callsAbout_def)
  ultimately show ?thesis
    using assms by (simp add: scheduleResize_guarded processFile_guarded onVaultEvent_def)
qed

theorem guarded_path_never_processed_witness:
  "path (toyFile ''pics'' ''a.png'')
     \<in> processing ((toyPlugin [(toyFile ''pics'' ''a.png'', [4000, 1000])])
          \<lparr>processing := {path (toyFile ''pics'' ''a.png'')},
            timers := [(1, Debounce (toyFile ''pics'' ''a.png''))], nextTimer := 2\<rparr>)
   \<and> processFile toyHost
        ((toyPlugin [(toyFile ''pics'' ''a.png'', [4000, 1000])])
          \<lparr>processing := {path (toyFile ''pics'' ''a.png'')},
            timers := [(1, Debounce (toyFile ''pics'' ''a.png''))], nextTimer := 2\<rparr>)
        (toyFile ''pics'' ''a.png'')
      = (toyPlugin [(toyFile ''pics'' ''a.png'', [4000, 1000])])
          \<lparr>processing := {path (toyFile ''pics'' ''a.png'')},
            timers := [(1, Debounce (toyFile ''pics'' ''a.png''))], nextTimer := 2\<rparr>
   \<and> ResizeImage (path (toyFile ''pics'' ''a.png''))
       \<notin> set (newCalls
            ((toyPlugin [(toyFile ''pics'' ''a.png'', [4000, 1000])])
              \<lparr>processing := {path (toyFile ''pics'' ''a.png'')},
                timers := [(1, Debounce (toyFile ''pics'' ''a.png''))], nextTimer := 2\<rparr>)
            (fireTimer toyHost
              ((toyPlugin [(toyFile ''pics'' ''a.png'', [4000, 1000])])
                \<lparr>processing := {path (toyFile ''pics'' ''a.png'')},
                  timers := [(1, Debounce (toyFile ''pics'' ''a.png''))], nextTimer := 2\<rparr>)
              1))"
proof -
  let ?f = "toyFile ''pics'' ''a.png''"
  let ?s = "(toyPlugin [(?f, [4000, 1000])])
              \<lparr>processing := {path ?f}, timers := [(1, Debounce ?f)], nextTimer := 2\<rparr>"
  have g: "path ?f \<in> processing ?s" by simp
  from guarded_path_never_processed [OF g, of toyHost 1] g show ?thesis by blast
qed

section \<open>Properties of the debounce scheduler\<close>

lemma sameTimers_refl [simp]: "sameTimers s s"
  by (simp add: sameTimers_def)


lemma sameTimers_called [simp]: "sameTimers s (called s c)"
  by (simp add: sameTimers_def called_def)

lemma sameTimers_Notice [simp]: "sameTimers s (Notice s n)"
  by (simp add: sameTimers_def Notice_def)







lemma timersConsistent_same:
  "sameTimers s s' \<Longrightarrow> timersConsistent s \<Longrightarrow> timersConsistent s'"
  by (simp add: sameTimers_def timersConsistent_def)















lemma debounceTimersFor_same:
  "sameTimers s s' \<Longrightarrow> debounceTimersFor s' p = debounceTimersFor s p"
  by (simp add: sameTimers_def debounceTimersFor_def)







lemma timersConsistent_newPlugin: "timersConsistent newPlugin"
  by (simp add: timersConsistent_def newPlugin_def)




section \<open>Properties of the batch coordinator\<close>

lemmas eval_plugin =
  toyPlugin_def newPlugin_def toyFile_def batchResize_def batchIteration_def batchTry_def
  writeBackBatch_def writeBackSingle_def processFile_def processFileTry_def readBinary_def
  modifyBinary_def renameFile_def getAbstractFileByPath_def setTimeout_def called_def
  Notice_def kilobytes_def replaceExtension_def matchExtension_def replaceString_def

lemma readBinary_called [simp]: "readBinary host (called s c) file = readBinary host s file"
  by (simp add: readBinary_def called_def)

lemma notices_called [simp]: "notices (called s c) = notices s"
  by (simp add: called_def)

lemma notices_setTimeout [simp]: "notices (snd (setTimeout s a)) = notices s"
  by (simp add: setTimeout_def)


















text \<open>
  Where a file other than the source is stored at the target a write-back computes,
  the write-back only overwrites the source and leaves the rest of the vault, the
  target included, as it was.
\<close>

lemma writeBackBatch_target_exists:
  assumes "newExtension r = Some ext" "ext \<noteq> []"
    and "vault s (path f) = Some (File old)" "\<not> modifyFails host (path f)"
    and "replaceExtension (path f) (CHR ''.'' # ext) \<noteq> path f"
    and "vault s (replaceExtension (path f) (CHR ''.'' # ext)) = Some e"
  shows "writeBackBatch host s f r
           = (None, (called s (ModifyBinary (path f)))
                      \<lparr>vault := (vault s)(path f \<mapsto> File (data r))\<rparr>)"
  using assms
  by (simp add: writeBackBatch_def modifyBinary_def getAbstractFileByPath_def called_def Let_def)

lemma writeBackSingle_target_exists:
  assumes "newExtension r = Some ext" "ext \<noteq> []"
    and "vault s (path f) = Some (File old)" "\<not> modifyFails host (path f)"
    and "replaceString (path f) (name f) (replaceExtension (name f) (CHR ''.'' # ext)) \<noteq> path f"
    and "vault s (replaceString (path f) (name f) (replaceExtension (name f) (CHR ''.'' # ext)))
           = Some e"
  shows "writeBackSingle host s f r
           = (None, (called s (ModifyBinary (path f)))
                      \<lparr>vault := (vault s)(path f \<mapsto> File (data r))\<rparr>)"
  using assms
  by (simp add: writeBackSingle_def modifyBinary_def getAbstractFileByPath_def called_def Let_def)

text \<open>
  Claim C10 says that in both paths the rename is skipped when a file exists at the
  path with the extension replaced by .jpg. The batch path derives the target from the
  path; processFile derives it by replacing the first occurrence of the file's name in
  the path. For the file a.png in a folder a.png, with a file a.png/a.jpg present,
  processFile computes the target a.jpg/a.png, finds nothing there and renames: the
  bytes leave the original path. The batch path, on the same vault, skips the rename.
\<close>

theorem single_file_rename_not_skipped:
  "vault ((toyPlugin [(toyFile ''a.png'' ''a.png'', [4000, 1000]),
                      (toyFile ''a.png'' ''a.jpg'', [7]),
                     (toyFile ''a.jpg'' ''note.md'', [1])])
            \<lparr>settings := DEFAULT_SETTINGS\<lparr>convertToJpeg := True\<rparr>\<rparr>)
         (replaceExtension (path (toyFile ''a.png'' ''a.png'')) ''.jpg'')
     = Some (File [7])
   \<and> calls (processFile toyHost
        ((toyPlugin [(toyFile ''a.png'' ''a.png'', [4000, 1000]),
                     (toyFile ''a.png'' ''a.jpg'', [7]),
                     (toyFile ''a.jpg'' ''note.md'', [1])])
           \<lparr>settings := DEFAULT_SETTINGS\<lparr>convertToJpeg := True\<rparr>\<rparr>)
        (toyFile ''a.png'' ''a.png''))
     = [ReadBinary ''a.png/a.png'', ResizeImage ''a.png/a.png'', ModifyBinary ''a.png/a.png'',
        RenameFile ''a.png/a.png'' ''a.jpg/a.png'']
   \<and> vault (processFile toyHost
        ((toyPlugin [(toyFile ''a.png'' ''a.png'', [4000, 1000]),
                     (toyFile ''a.png'' ''a.jpg'', [7]),
                     (toyFile ''a.jpg'' ''note.md'', [1])])
           \<lparr>settings := DEFAULT_SETTINGS\<lparr>convertToJpeg := True\<rparr>\<rparr>)
        (toyFile ''a.png'' ''a.png'')) ''a.png/a.png'' = None
   \<and> vault (processFile toyHost
        ((toyPlugin [(toyFile ''a.png'' ''a.png'', [4000, 1000]),
                     (toyFile ''a.png'' ''a.jpg'', [7]),
                     (toyFile ''a.jpg'' ''note.md'', [1])])
           \<lparr>settings := DEFAULT_SETTINGS\<lparr>convertToJpeg := True\<rparr>\<rparr>)
        (toyFile ''a.png'' ''a.png'')) ''a.jpg/a.png'' = Some (File [1920, 480])
   \<and> calls (batchResize toyHost
        ((toyPlugin [(toyFile ''a.png'' ''a.png'', [4000, 1000]),
                     (toyFile ''a.png'' ''a.jpg'', [7]),
                     (toyFile ''a.jpg'' ''note.md'', [1])])
           \<lparr>settings := DEFAULT_SETTINGS\<lparr>convertToJpeg := True\<rparr>\<rparr>)
        [toyFile ''a.png'' ''a.png''] ''vault'')
     = [ReadBinary ''a.png/a.png'', ResizeImage ''a.png/a.png'', ModifyBinary ''a.png/a.png'']"
  by (simp add: eval_plugin eval_strings eval_engine Let_def)

end
